theory Spec2Isabelle
  imports Main
begin

section \<open>JavaScript values\<close>

text \<open>
  The trigger payload is whatever \<^verbatim>\<open>JSON.parse\<close> produced, so the script works on
  untyped JavaScript values. Strings are byte strings holding the text in UTF-8: the
  length and the characters of a string are those of its bytes, which are JavaScript's for
  ASCII text. A number is kept as the exact decimal \<open>m * 10 ^ e\<close> of its literal; rounding
  to an IEEE double is not modelled.
\<close>

datatype jsval =
    JUndefined
  | JNull
  | JBool bool
  | JNum int int
  | JStr string
  | JArr "jsval list"
  | JObj "(string \<times> jsval) list"

text \<open>The result of \<^verbatim>\<open>ToNumber\<close>: not-a-number, or the decimal \<open>m * 10 ^ e\<close>.\<close>

datatype jsnum = NaN | Dec int int

text \<open>Truthiness, as tested by \<^verbatim>\<open>!x\<close>, \<^verbatim>\<open>x || y\<close> and \<^verbatim>\<open>if (x)\<close>. Arrays and objects,
  also empty ones, are truthy.\<close>

fun truthy :: "jsval \<Rightarrow> bool" where
  "truthy JUndefined = False"
| "truthy JNull = False"
| "truthy (JBool b) = b"
| "truthy (JNum m e) = (m \<noteq> 0)"
| "truthy (JStr s) = (s \<noteq> [])"
| "truthy (JArr xs) = True"
| "truthy (JObj fs) = True"

text \<open>\<^verbatim>\<open>a || b\<close>\<close>

definition js_or :: "jsval \<Rightarrow> jsval \<Rightarrow> jsval" where
  "js_or a b = (if truthy a then a else b)"

text \<open>Decimal digits of a natural number, as a template literal prints a loop index
  or \<^verbatim>\<open>Date.now()\<close>.\<close>

definition digit_char :: "nat \<Rightarrow> char" where
  "digit_char d = ''0123456789'' ! d"

fun show_nat :: "nat \<Rightarrow> string" where
  "show_nat n = (if n < 10 then [digit_char n] else show_nat (n div 10) @ [digit_char (n mod 10)])"

declare show_nat.simps [simp del]

text \<open>
  Reading a named property \<^verbatim>\<open>v.k\<close>, for the names the script uses
  (\<^verbatim>\<open>client_payload\<close>, \<^verbatim>\<open>assetUrls\<close>, \<^verbatim>\<open>scriptText\<close>, \<^verbatim>\<open>outputName\<close>, \<^verbatim>\<open>text\<close>): none of them is
  inherited from a prototype, so only an object's own fields can answer. Reading a property
  of \<^verbatim>\<open>null\<close> or \<^verbatim>\<open>undefined\<close> throws a TypeError: \<open>None\<close>.
\<close>

fun get_prop :: "jsval \<Rightarrow> string \<Rightarrow> jsval option" where
  "get_prop JUndefined k = None"
| "get_prop JNull k = None"
| "get_prop (JObj fs) k = (case map_of fs k of None \<Rightarrow> Some JUndefined | Some v \<Rightarrow> Some v)"
| "get_prop v k = Some JUndefined"

text \<open>\<^verbatim>\<open>v.length\<close>\<close>

fun get_length :: "jsval \<Rightarrow> jsval option" where
  "get_length JUndefined = None"
| "get_length JNull = None"
| "get_length (JStr s) = Some (JNum (int (length s)) 0)"
| "get_length (JArr xs) = Some (JNum (int (length xs)) 0)"
| "get_length (JObj fs) = (case map_of fs ''length'' of None \<Rightarrow> Some JUndefined | Some v \<Rightarrow> Some v)"
| "get_length v = Some JUndefined"

text \<open>\<^verbatim>\<open>v[i]\<close> for a loop index \<open>i\<close>: out of range is \<^verbatim>\<open>undefined\<close>, not an error.\<close>

fun get_index :: "jsval \<Rightarrow> nat \<Rightarrow> jsval option" where
  "get_index JUndefined i = None"
| "get_index JNull i = None"
| "get_index (JStr s) i = Some (if i < length s then JStr [s ! i] else JUndefined)"
| "get_index (JArr xs) i = Some (if i < length xs then xs ! i else JUndefined)"
| "get_index (JObj fs) i = (case map_of fs (show_nat i) of None \<Rightarrow> Some JUndefined | Some v \<Rightarrow> Some v)"
| "get_index v i = Some JUndefined"

text \<open>\<^verbatim>\<open>i < x\<close> for a loop index \<open>i\<close> and a number \<open>x\<close>; every comparison with NaN is false.\<close>

fun num_less :: "nat \<Rightarrow> jsnum \<Rightarrow> bool" where
  "num_less i NaN = False"
| "num_less i (Dec m e) =
     (if 0 \<le> e then int i < m * 10 ^ nat e else int i * 10 ^ nat (- e) < m)"

section \<open>JSON.parse\<close>

text \<open>
  The script calls \<^verbatim>\<open>JSON.parse\<close> on the event file and on \<^verbatim>\<open>scriptText\<close>. The function
  below follows the JSON grammar of ECMA-404: a lexer that reads one character at a time,
  then a parser of the token list with an explicit stack of open containers. \<open>None\<close> is
  the SyntaxError.
\<close>

datatype token =
    TLBrace | TRBrace | TLBrack | TRBrack | TColon | TComma
  | TStr string | TNum int int | TTrue | TFalse | TNull

definition is_ws :: "char \<Rightarrow> bool" where
  "is_ws c = (c \<in> set [CHR 0x20, CHR 0x09, CHR 0x0A, CHR 0x0D])"

definition is_digit :: "char \<Rightarrow> bool" where
  "is_digit c = (c \<in> set ''0123456789'')"

definition is_num_char :: "char \<Rightarrow> bool" where
  "is_num_char c = (c \<in> set ''0123456789+-.eE'')"

definition is_word_char :: "char \<Rightarrow> bool" where
  "is_word_char c = (c \<in> set ''abcdefghijklmnopqrstuvwxyz'')"

text \<open>The position of the first \<open>c\<close> in \<open>s\<close>.\<close>

definition index_of :: "char \<Rightarrow> string \<Rightarrow> nat" where
  "index_of c s = length (takeWhile (\<lambda>d. d \<noteq> c) s)"

definition digit_val :: "char \<Rightarrow> nat" where
  "digit_val c = index_of c ''0123456789''"

definition hex_val :: "char \<Rightarrow> nat option" where
  "hex_val c =
     (if c \<in> set ''0123456789abcdef'' then Some (index_of c ''0123456789abcdef'')
      else if c \<in> set ''ABCDEF'' then Some (10 + index_of c ''ABCDEF'')
      else None)"

definition nat_of_digits :: "string \<Rightarrow> nat" where
  "nat_of_digits ds = foldl (\<lambda>a c. 10 * a + digit_val c) 0 ds"

text \<open>The UTF-8 bytes of the code unit named by a \<^verbatim>\<open>\uXXXX\<close> escape.\<close>

definition utf8 :: "nat \<Rightarrow> string" where
  "utf8 n =
     (if n < 128 then [char_of n]
      else if n < 2048 then [char_of (192 + n div 64), char_of (128 + n mod 64)]
      else [char_of (224 + n div 4096), char_of (128 + (n div 64) mod 64), char_of (128 + n mod 64)])"

text \<open>A number literal: \<^verbatim>\<open>-? (0 | [1-9][0-9]*) (. [0-9]+)? ([eE] [+-]? [0-9]+)?\<close>.\<close>

definition parse_exponent :: "string \<Rightarrow> int option" where
  "parse_exponent r =
     (case r of
        [] \<Rightarrow> Some 0
      | c # r1 \<Rightarrow>
          if c = CHR ''e'' \<or> c = CHR ''E'' then
            (let neg = (r1 \<noteq> [] \<and> hd r1 = CHR ''-'');
                 r2 = (if r1 \<noteq> [] \<and> (hd r1 = CHR ''-'' \<or> hd r1 = CHR ''+'') then tl r1 else r1)
             in if r2 \<noteq> [] \<and> list_all is_digit r2
                then Some (if neg then - int (nat_of_digits r2) else int (nat_of_digits r2))
                else None)
          else None)"

definition parse_number :: "string \<Rightarrow> (int \<times> int) option" where
  "parse_number s =
     (let neg = (s \<noteq> [] \<and> hd s = CHR ''-'');
          r1 = (if neg then tl s else s);
          d1 = takeWhile is_digit r1;
          r2 = dropWhile is_digit r1
      in if d1 = [] \<or> (1 < length d1 \<and> hd d1 = CHR ''0'') then None
         else
           let has_frac = (r2 \<noteq> [] \<and> hd r2 = CHR ''.'');
               d2 = (if has_frac then takeWhile is_digit (tl r2) else []);
               r3 = (if has_frac then dropWhile is_digit (tl r2) else r2)
           in if has_frac \<and> d2 = [] then None
              else
                (case parse_exponent r3 of
                   None \<Rightarrow> None
                 | Some e \<Rightarrow>
                     Some ((if neg then - int (nat_of_digits (d1 @ d2)) else int (nat_of_digits (d1 @ d2))),
                           e - int (length d2))))"

definition word_token :: "string \<Rightarrow> token option" where
  "word_token w =
     (if w = ''true'' then Some TTrue
      else if w = ''false'' then Some TFalse
      else if w = ''null'' then Some TNull
      else None)"

datatype lexmode =
    Idle
  | InStr string
  | InEsc string
  | InHex string "nat list"
  | InNum string
  | InWord string

text \<open>Accumulators hold the characters read so far, last one first.\<close>

function (sequential) tokenize :: "lexmode \<Rightarrow> string \<Rightarrow> token list option" where
  "tokenize Idle [] = Some []"
| "tokenize Idle (c # cs) =
     (if is_ws c then tokenize Idle cs
      else if c = CHR ''{'' then map_option ((#) TLBrace) (tokenize Idle cs)
      else if c = CHR ''}'' then map_option ((#) TRBrace) (tokenize Idle cs)
      else if c = CHR ''['' then map_option ((#) TLBrack) (tokenize Idle cs)
      else if c = CHR '']'' then map_option ((#) TRBrack) (tokenize Idle cs)
      else if c = CHR '':'' then map_option ((#) TColon) (tokenize Idle cs)
      else if c = CHR '','' then map_option ((#) TComma) (tokenize Idle cs)
      else if c = CHR 0x22 then tokenize (InStr []) cs
      else if c = CHR ''-'' \<or> is_digit c then tokenize (InNum [c]) cs
      else if is_word_char c then tokenize (InWord [c]) cs
      else None)"
| "tokenize (InStr acc) [] = None"
| "tokenize (InStr acc) (c # cs) =
     (if c = CHR 0x22 then map_option ((#) (TStr (rev acc))) (tokenize Idle cs)
      else if c = CHR 0x5C then tokenize (InEsc acc) cs
      else if (of_char c :: nat) < 32 then None
      else tokenize (InStr (c # acc)) cs)"
| "tokenize (InEsc acc) [] = None"
| "tokenize (InEsc acc) (c # cs) =
     (if c = CHR 0x22 \<or> c = CHR 0x5C \<or> c = CHR ''/'' then tokenize (InStr (c # acc)) cs
      else if c = CHR ''b'' then tokenize (InStr (CHR 0x08 # acc)) cs
      else if c = CHR ''f'' then tokenize (InStr (CHR 0x0C # acc)) cs
      else if c = CHR ''n'' then tokenize (InStr (CHR 0x0A # acc)) cs
      else if c = CHR ''r'' then tokenize (InStr (CHR 0x0D # acc)) cs
      else if c = CHR ''t'' then tokenize (InStr (CHR 0x09 # acc)) cs
      else if c = CHR ''u'' then tokenize (InHex acc []) cs
      else None)"
| "tokenize (InHex acc hs) [] = None"
| "tokenize (InHex acc hs) (c # cs) =
     (case hex_val c of
        None \<Rightarrow> None
      | Some h \<Rightarrow>
          if length hs = 3
          then tokenize (InStr (rev (utf8 (foldl (\<lambda>a d. 16 * a + d) 0 (hs @ [h]))) @ acc)) cs
          else tokenize (InHex acc (hs @ [h])) cs)"
| "tokenize (InNum acc) [] =
     (case parse_number (rev acc) of None \<Rightarrow> None | Some (m, e) \<Rightarrow> Some [TNum m e])"
| "tokenize (InNum acc) (c # cs) =
     (if is_num_char c then tokenize (InNum (c # acc)) cs
      else (case parse_number (rev acc) of
              None \<Rightarrow> None
            | Some (m, e) \<Rightarrow> map_option ((#) (TNum m e)) (tokenize Idle (c # cs))))"
| "tokenize (InWord acc) [] = map_option (\<lambda>t. [t]) (word_token (rev acc))"
| "tokenize (InWord acc) (c # cs) =
     (if is_word_char c then tokenize (InWord (c # acc)) cs
      else (case word_token (rev acc) of
              None \<Rightarrow> None
            | Some t \<Rightarrow> map_option ((#) t) (tokenize Idle (c # cs))))"
  by pat_completeness auto
termination
  by (relation "measure (\<lambda>(m, s). 2 * length s + (case m of Idle \<Rightarrow> 0 | _ \<Rightarrow> 1))") auto

text \<open>An open container waiting for its next value: an array with the elements read so
  far, or an object with the fields read so far and the key just read. Both are kept last
  one first, so that the last of two fields with the same key is the one \<open>map_of\<close> finds,
  as in JavaScript.\<close>

datatype frame = FArr "jsval list" | FObj "(string \<times> jsval) list" string

text \<open>The start of an object field: a string key and a colon.\<close>

definition key_colon :: "token list \<Rightarrow> (string \<times> token list) option" where
  "key_colon ts =
     (case ts of
        TStr k # t # r \<Rightarrow> if t = TColon then Some (k, r) else None
      | _ \<Rightarrow> None)"

lemma key_colon_shorter: "key_colon ts = Some (k, r) \<Longrightarrow> length r < length ts"
  by (auto simp: key_colon_def split: list.splits token.splits if_splits)

text \<open>\<open>pvalue\<close> expects a value; \<open>pafter\<close> has just completed the value \<open>v\<close>.\<close>

function pvalue :: "frame list \<Rightarrow> token list \<Rightarrow> jsval option"
  and pafter :: "jsval \<Rightarrow> frame list \<Rightarrow> token list \<Rightarrow> jsval option" where
  "pvalue st [] = None"
| "pvalue st (t # ts) =
     (case t of
        TStr s \<Rightarrow> pafter (JStr s) st ts
      | TNum m e \<Rightarrow> pafter (JNum m e) st ts
      | TTrue \<Rightarrow> pafter (JBool True) st ts
      | TFalse \<Rightarrow> pafter (JBool False) st ts
      | TNull \<Rightarrow> pafter JNull st ts
      | TLBrack \<Rightarrow>
          if ts \<noteq> [] \<and> hd ts = TRBrack then pafter (JArr []) st (tl ts)
          else pvalue (FArr [] # st) ts
      | TLBrace \<Rightarrow>
          if ts \<noteq> [] \<and> hd ts = TRBrace then pafter (JObj []) st (tl ts)
          else (case key_colon ts of
                  None \<Rightarrow> None
                | Some (k, r) \<Rightarrow> pvalue (FObj [] k # st) r)
      | _ \<Rightarrow> None)"
| "pafter v [] ts = (if ts = [] then Some v else None)"
| "pafter v (FArr acc # st) ts =
     (if ts \<noteq> [] \<and> hd ts = TComma then pvalue (FArr (v # acc) # st) (tl ts)
      else if ts \<noteq> [] \<and> hd ts = TRBrack then pafter (JArr (rev (v # acc))) st (tl ts)
      else None)"
| "pafter v (FObj acc k # st) ts =
     (if ts \<noteq> [] \<and> hd ts = TComma then
        (case key_colon (tl ts) of
           None \<Rightarrow> None
         | Some (k', r) \<Rightarrow> pvalue (FObj ((k, v) # acc) k' # st) r)
      else if ts \<noteq> [] \<and> hd ts = TRBrace then pafter (JObj ((k, v) # acc)) st (tl ts)
      else None)"
  by pat_completeness auto
termination
proof (relation "measure (\<lambda>x. case x of Inl (st, ts) \<Rightarrow> length ts | Inr (v, st, ts) \<Rightarrow> length ts)")
qed (auto dest!: key_colon_shorter simp: less_Suc_eq_le intro: less_imp_le)

definition JSON_parse :: "string \<Rightarrow> jsval option" where
  "JSON_parse s = (case tokenize Idle s of None \<Rightarrow> None | Some ts \<Rightarrow> pvalue [] ts)"

section \<open>Node's path module (POSIX)\<close>

text \<open>\<^verbatim>\<open>s.split(c)\<close>: the pieces of \<open>s\<close> between the occurrences of \<open>c\<close>.\<close>

fun split_on :: "char \<Rightarrow> string \<Rightarrow> string list" where
  "split_on c [] = [[]]"
| "split_on c (x # xs) =
     (if x = c then [] # split_on c xs
      else (case split_on c xs of [] \<Rightarrow> [[x]] | s # ss \<Rightarrow> (x # s) # ss))"

fun join_with :: "string \<Rightarrow> string list \<Rightarrow> string" where
  "join_with sep [] = []"
| "join_with sep [s] = s"
| "join_with sep (s # ss) = s @ sep @ join_with sep ss"

text \<open>
  \<^verbatim>\<open>normalizeString\<close>, segment by segment: empty segments and \<^verbatim>\<open>.\<close> are dropped, \<^verbatim>\<open>..\<close>
  removes the segment before it, and is kept only where the path may climb above its
  start (a relative path). \<open>kept\<close> holds the segments kept so far, last one first.
\<close>

fun normalize_segments :: "bool \<Rightarrow> string list \<Rightarrow> string list \<Rightarrow> string list" where
  "normalize_segments climb kept [] = rev kept"
| "normalize_segments climb kept (s # ss) =
     (if s = [] \<or> s = ''.'' then normalize_segments climb kept ss
      else if s = ''..'' then
        (case kept of
           [] \<Rightarrow> normalize_segments climb (if climb then [''..''] else []) ss
         | k # ks \<Rightarrow>
             if k = ''..'' then normalize_segments climb (if climb then ''..'' # kept else kept) ss
             else normalize_segments climb ks ss)
      else normalize_segments climb (s # kept) ss)"

text \<open>\<^verbatim>\<open>path.normalize(p)\<close>\<close>

definition path_normalize :: "string \<Rightarrow> string" where
  "path_normalize p =
     (if p = [] then ''.''
      else
        let is_absolute = (hd p = CHR ''/'');
            trailing = (last p = CHR ''/'');
            r = join_with ''/'' (normalize_segments (\<not> is_absolute) [] (split_on CHR ''/'' p))
        in if r = [] then (if is_absolute then ''/'' else if trailing then ''./'' else ''.'')
           else (if is_absolute then ''/'' else []) @ r @ (if trailing then ''/'' else []))"

text \<open>\<^verbatim>\<open>path.join(a, b)\<close> on two strings.\<close>

definition path_join :: "string \<Rightarrow> string \<Rightarrow> string" where
  "path_join a b =
     (if a = [] \<and> b = [] then ''.''
      else if a = [] then path_normalize b
      else if b = [] then path_normalize a
      else path_normalize (a @ ''/'' @ b))"

text \<open>
  \<^verbatim>\<open>path.extname(p)\<close>: from the last dot of the last path component to its end; empty when
  the component has no dot, starts with its only dot, or is \<^verbatim>\<open>..\<close>. Trailing slashes are
  ignored. The component is handled reversed.
\<close>

definition path_extname :: "string \<Rightarrow> string" where
  "path_extname p =
     (let comp = takeWhile (\<lambda>c. c \<noteq> CHR ''/'') (dropWhile (\<lambda>c. c = CHR ''/'') (rev p));
          after_dot = takeWhile (\<lambda>c. c \<noteq> CHR ''.'') comp;
          from_dot = dropWhile (\<lambda>c. c \<noteq> CHR ''.'') comp
      in if from_dot = [] \<or> tl from_dot = [] \<or> (tl from_dot = ''.'' \<and> after_dot = []) then []
         else CHR ''.'' # rev after_dot)"

section \<open>The world outside the script\<close>

text \<open>
  Every call that leaves the script has a site. The table gives the source line and the
  fixed arguments of each; arguments that vary are recorded with the call in the trace.

  \<^item> \<open>ReadEvent\<close>: \<^verbatim>\<open>fs.readFileSync(eventPath, 'utf8')\<close>, line 34
  \<^item> \<open>Mkdir\<close>: \<^verbatim>\<open>fs.mkdirSync(tmpDir, {recursive: true})\<close>, line 48
  \<^item> \<open>FetchAsset i\<close>, \<open>BufferAsset i\<close>, \<open>WriteAsset i\<close>: \<^verbatim>\<open>fetch(url)\<close>, \<^verbatim>\<open>res.buffer()\<close>,
    \<^verbatim>\<open>fs.writeFileSync(filename, buffer)\<close> of the loop at index \<open>i\<close>, lines 55 to 61
  \<^item> \<open>Launch\<close>, \<open>NewPage\<close>, \<open>SetViewport\<close>, \<open>Goto\<close>: lines 67 to 85
  \<^item> \<open>LoginWait\<close>, \<open>LoginClick\<close>: \<^verbatim>\<open>page.waitForSelector\<close> (8 s) and \<^verbatim>\<open>page.click\<close> on the login
    button, lines 90 and 91
  \<^item> \<open>EmailQuery\<close>, \<open>TypeEmail\<close>, \<open>TypePassword\<close>, \<open>SubmitQuery\<close>, \<open>SubmitClick\<close>,
    \<open>Navigation\<close>: lines 101 to 109
  \<^item> \<open>NewProjectQuery\<close>, \<open>NewProjectClick\<close>: lines 123 and 125
  \<^item> \<open>FileInputQuery1\<close>, \<open>UploadQuery\<close>, \<open>UploadClick\<close>, \<open>FileInputQuery2\<close>, \<open>UploadFile\<close>:
    lines 138, 141, 143, 148 and 153
  \<^item> \<open>ThumbsWait\<close> (10 s), \<open>ThumbsQuery\<close>, \<open>ThumbClick i\<close>: lines 165, 166 and 171
  \<^item> \<open>TextQuery\<close>, \<open>TextClick\<close>, \<open>AddTextQuery\<close>: lines 180, 182 and 187
  \<^item> \<open>AddTextClick i\<close>, \<open>ActiveInputQuery i\<close>, \<open>Focus i\<close>, \<open>KeyboardType i\<close>: lines 191, 194,
    196 and 197, for caption \<open>i\<close>
  \<^item> \<open>ExportQuery\<close>, \<open>ExportClick\<close>: lines 219 and 221
  \<^item> \<open>DownloadWait\<close> (120 s), \<open>DownloadQuery\<close>, \<open>DownloadEvaluate\<close>, \<open>FetchExport\<close>,
    \<open>BufferExport\<close>, \<open>WriteExport\<close>: lines 233, 235, 237, 240, 241 and 243
  \<^item> \<open>Close\<close>: \<^verbatim>\<open>browser.close()\<close>, lines 157 and 256
\<close>

datatype site =
    ReadEvent | Mkdir
  | FetchAsset nat | BufferAsset nat | WriteAsset nat
  | Launch | NewPage | SetViewport | Goto
  | LoginWait | LoginClick
  | EmailQuery | TypeEmail | TypePassword | SubmitQuery | SubmitClick | Navigation
  | NewProjectQuery | NewProjectClick
  | FileInputQuery1 | UploadQuery | UploadClick | FileInputQuery2 | UploadFile
  | ThumbsWait | ThumbsQuery | ThumbClick nat
  | TextQuery | TextClick | AddTextQuery
  | AddTextClick nat | ActiveInputQuery nat | Focus nat | KeyboardType nat
  | ExportQuery | ExportClick
  | DownloadWait | DownloadQuery | DownloadEvaluate | FetchExport | BufferExport | WriteExport
  | Close

text \<open>
  What the world answers. \<open>returns s\<close>: the call at \<open>s\<close> returns (its promise resolves)
  rather than throws (rejects). \<open>matches s\<close>: how many elements the query at \<open>s\<close> finds;
  \<^verbatim>\<open>page.$\<close> gives \<^verbatim>\<open>null\<close> when it is 0. \<open>coerce_number\<close> is \<^verbatim>\<open>ToNumber\<close> on strings,
  arrays and objects, \<open>None\<close> when it throws.
\<close>

record env =
  GITHUB_EVENT_PATH :: "string option"
  CAPCUT_EMAIL :: "string option"
  CAPCUT_PASSWORD :: "string option"
  CHROME_EXEC :: "string option"
  date_now :: nat
  event_file :: string
  tmp_dir_exists :: bool
  returns :: "site \<Rightarrow> bool"
  matches :: "site \<Rightarrow> nat"
  fetch_status :: "site \<Rightarrow> nat"
  fetch_body :: "site \<Rightarrow> string"
  download_href :: jsval
  coerce_number :: "jsval \<Rightarrow> jsnum option"

text \<open>What the script does to the world, in order. Of a console call only the first
  argument, the fixed message, is kept (the dash of one message is written as a hyphen).\<close>

datatype event =
    ConsoleError string
  | ConsoleWarn string
  | ConsoleLog string
  | Call site "jsval list"
  | Pause nat

text \<open>How a statement ends: control goes on to the next statement, an exception
  propagates, or \<^verbatim>\<open>process.exit(n)\<close> ended the process. At the top of the async function
  \<open>Throw\<close> is an unhandled rejection.\<close>

datatype flow = Next | Throw | Exit nat

type_synonym stmt = "event list \<times> flow"

definition skip :: stmt where
  "skip = ([], Next)"

definition throw :: stmt where
  "throw = ([], Throw)"

definition exit :: "nat \<Rightarrow> stmt" where
  "exit n = ([], Exit n)"

definition console_error :: "string \<Rightarrow> stmt" where
  "console_error m = ([ConsoleError m], Next)"

definition console_warn :: "string \<Rightarrow> stmt" where
  "console_warn m = ([ConsoleWarn m], Next)"

definition console_log :: "string \<Rightarrow> stmt" where
  "console_log m = ([ConsoleLog m], Next)"

text \<open>\<^verbatim>\<open>page.waitForTimeout(ms)\<close>: a timer, it always resolves.\<close>

definition pause :: "nat \<Rightarrow> stmt" where
  "pause ms = ([Pause ms], Next)"

definition call :: "env \<Rightarrow> site \<Rightarrow> jsval list \<Rightarrow> stmt" where
  "call env s args = ([Call s args], if returns env s then Next else Throw)"

text \<open>\<^verbatim>\<open>a; b\<close>\<close>

definition and_then :: "stmt \<Rightarrow> stmt \<Rightarrow> stmt" where
  "and_then a b = (if snd a = Next then (fst a @ fst b, snd b) else a)"

text \<open>\<^verbatim>\<open>{ s1; s2; ... }\<close>\<close>

fun block :: "stmt list \<Rightarrow> stmt" where
  "block [] = skip"
| "block (s # ss) = and_then s (block ss)"

text \<open>\<^verbatim>\<open>try { body } catch (err) { handler }\<close>\<close>

definition try_catch :: "stmt \<Rightarrow> stmt \<Rightarrow> stmt" where
  "try_catch body handler = (if snd body = Throw then and_then (fst body, Next) handler else body)"

text \<open>An environment variable is used when it is set and not empty.\<close>

fun env_truthy :: "string option \<Rightarrow> bool" where
  "env_truthy None = False"
| "env_truthy (Some s) = (s \<noteq> [])"

text \<open>\<^verbatim>\<open>res.ok\<close> of node-fetch: the status is in the range 200 to 299.\<close>

definition response_ok :: "env \<Rightarrow> site \<Rightarrow> bool" where
  "response_ok env s = (200 \<le> fetch_status env s \<and> fetch_status env s < 300)"

text \<open>\<^verbatim>\<open>ToNumber(v)\<close>\<close>

fun to_number :: "env \<Rightarrow> jsval \<Rightarrow> jsnum option" where
  "to_number env JUndefined = Some NaN"
| "to_number env JNull = Some (Dec 0 0)"
| "to_number env (JBool b) = Some (Dec (if b then 1 else 0) 0)"
| "to_number env (JNum m e) = Some (Dec m e)"
| "to_number env v = coerce_number env v"

section \<open>capcut-automate.js\<close>

subsection \<open>Downloading the assets (lines 46 to 64)\<close>

definition tmpDir :: string where
  "tmpDir = ''/tmp/capcut_assets''"

text \<open>\<^verbatim>\<open>path.extname(url).split('?')[0] || '.mp4'\<close>\<close>

definition asset_ext :: "string \<Rightarrow> string" where
  "asset_ext url =
     (let e = hd (split_on CHR ''?'' (path_extname url)) in if e = [] then ''.mp4'' else e)"

definition asset_filename :: "nat \<Rightarrow> string \<Rightarrow> string" where
  "asset_filename i url = path_join tmpDir (''asset_'' @ show_nat i @ asset_ext url)"

text \<open>The body of the loop for a string \<open>url\<close> at index \<open>i\<close>.\<close>

definition download_one :: "env \<Rightarrow> nat \<Rightarrow> string \<Rightarrow> stmt" where
  "download_one env i url =
     block [
       call env (FetchAsset i) [JStr url],
       if \<not> response_ok env (FetchAsset i)
       then block [console_error ''Failed to download asset'', exit 1]
       else skip,
       call env (BufferAsset i) [],
       call env (WriteAsset i) [JStr (asset_filename i url), JStr (fetch_body env (FetchAsset i))],
       console_log ''Saved'']"

text \<open>
  The loop \<^verbatim>\<open>for (let i = 0; i < payload.assetUrls.length; i++)\<close>, from index \<open>i\<close> on, with
  \<open>files\<close> the value of \<^verbatim>\<open>localFiles\<close>. It returns the statement's trace and flow, and
  \<^verbatim>\<open>localFiles\<close> at the end. \<^verbatim>\<open>path.extname\<close> throws a TypeError on anything but a string.
  The loop ends because an array, a string or an object has finitely many elements: an
  index that is not there makes \<^verbatim>\<open>path.extname\<close> throw.
\<close>

lemma show_nat_nonempty: "show_nat n \<noteq> []"
  by (subst show_nat.simps) simp

lemma digit_char_inj: "a < 10 \<Longrightarrow> b < 10 \<Longrightarrow> digit_char a = digit_char b \<Longrightarrow> a = b"
proof -
  assume "a < 10" "b < 10" "digit_char a = digit_char b"
  moreover have "distinct ''0123456789''" by simp
  ultimately show "a = b"
    unfolding digit_char_def by (simp add: nth_eq_iff_index_eq)
qed

lemma show_nat_inj: "show_nat n = show_nat m \<Longrightarrow> n = m"
proof (induction n arbitrary: m rule: show_nat.induct)
  case (1 n)
  show ?case
  proof (cases "n < 10")
    case True
    then have n: "show_nat n = [digit_char n]" by (subst show_nat.simps) simp
    show ?thesis
    proof (cases "m < 10")
      case mt: True
      then have "show_nat m = [digit_char m]" by (subst show_nat.simps) simp
      with n "1.prems" True mt show ?thesis by (auto dest: digit_char_inj)
    next
      case False
      then have "show_nat m = show_nat (m div 10) @ [digit_char (m mod 10)]"
        by (subst show_nat.simps) simp
      with n "1.prems" show ?thesis by (simp add: show_nat_nonempty)
    qed
  next
    case False
    then have n: "show_nat n = show_nat (n div 10) @ [digit_char (n mod 10)]"
      by (subst show_nat.simps) simp
    show ?thesis
    proof (cases "m < 10")
      case True
      then have "show_nat m = [digit_char m]" by (subst show_nat.simps) simp
      with n "1.prems" show ?thesis
        by (metis append_is_Nil_conv butlast.simps(2) butlast_snoc show_nat_nonempty)
    next
      case mf: False
      then have "show_nat m = show_nat (m div 10) @ [digit_char (m mod 10)]"
        by (subst show_nat.simps) simp
      with n "1.prems" have eq: "show_nat (n div 10) = show_nat (m div 10)"
        and d: "digit_char (n mod 10) = digit_char (m mod 10)" by auto
      from "1.IH" [OF False eq] have "n div 10 = m div 10" .
      moreover from d have "n mod 10 = m mod 10" by (rule digit_char_inj [rotated 2]) simp_all
      ultimately show ?thesis by (metis div_mult_mod_eq)
    qed
  qed
qed

lemma keys_from_Suc:
  assumes "map_of fs (show_nat i) = Some v"
  shows "card {k \<in> fst ` set fs. \<exists>j\<ge>Suc i. k = show_nat j} < card {k \<in> fst ` set fs. \<exists>j\<ge>i. k = show_nat j}"
proof -
  let ?A = "\<lambda>i. {k \<in> fst ` set fs. \<exists>j\<ge>i. k = show_nat j}"
  from assms have "show_nat i \<in> fst ` set fs"
    by (metis map_of_SomeD fst_conv image_eqI)
  then have "show_nat i \<in> ?A i" by auto
  moreover have "show_nat i \<notin> ?A (Suc i)" by (auto dest: show_nat_inj)
  moreover have "?A (Suc i) \<subseteq> ?A i" by (auto intro: Suc_leD)
  ultimately have "?A (Suc i) \<subset> ?A i" by blast
  moreover have "finite (?A i)" by simp
  ultimately show ?thesis by (rule psubset_card_mono [rotated])
qed

function download_loop :: "env \<Rightarrow> jsval \<Rightarrow> nat \<Rightarrow> string list \<Rightarrow> stmt \<times> string list" where
  "download_loop env a i files =
     (case get_length a of
        None \<Rightarrow> (throw, files)
      | Some len \<Rightarrow>
          (case to_number env len of
             None \<Rightarrow> (throw, files)
           | Some x \<Rightarrow>
               if \<not> num_less i x then (skip, files)
               else
                 (case get_index a i of
                    Some (JStr url) \<Rightarrow>
                      if snd (download_one env i url) = Next
                      then (and_then (download_one env i url)
                              (fst (download_loop env a (Suc i) (files @ [asset_filename i url]))),
                            snd (download_loop env a (Suc i) (files @ [asset_filename i url])))
                      else (download_one env i url, files)
                  | _ \<Rightarrow> (throw, files))))"
  by pat_completeness auto
termination
proof (relation "measure (\<lambda>(env, a, i, files).
         case a of
           JArr xs \<Rightarrow> length xs - i
         | JStr s \<Rightarrow> length s - i
         | JObj fs \<Rightarrow> card {k \<in> fst ` set fs. \<exists>j\<ge>i. k = show_nat j}
         | _ \<Rightarrow> 0)", goal_cases)
  case 1
  show ?case by simp
next
  case (2 env a i files len x v url)
  then show ?case
    by (cases a) (auto split: if_splits option.splits intro: keys_from_Suc)
next
  case (3 env a i files len x v url)
  then show ?case
    by (cases a) (auto split: if_splits option.splits intro: keys_from_Suc)
qed

declare download_loop.simps [simp del]

subsection \<open>Starting the browser (lines 66 to 85)\<close>

definition chrome_exec :: "env \<Rightarrow> string" where
  "chrome_exec env =
     (case CHROME_EXEC env of
        None \<Rightarrow> ''/usr/bin/google-chrome-stable''
      | Some p \<Rightarrow> if p = [] then ''/usr/bin/google-chrome-stable'' else p)"

definition bootstrap :: "env \<Rightarrow> stmt" where
  "bootstrap env =
     block [
       call env Launch [JStr (chrome_exec env)],
       call env NewPage [],
       call env SetViewport [JNum 1280 0, JNum 800 0],
       console_log ''Navigating to CapCut...'',
       call env Goto [JStr ''https://www.capcut.com/tools/editor'']]"

subsection \<open>Logging in (lines 87 to 116)\<close>

definition login_button :: "env \<Rightarrow> stmt" where
  "login_button env =
     try_catch
       (block [call env LoginWait [], call env LoginClick [], pause 2000])
       (console_warn ''Login button not found; continuing if already logged in.'')"

definition email_login :: "env \<Rightarrow> stmt" where
  "email_login env =
     try_catch
       (block [
          call env EmailQuery [],
          if 0 < matches env EmailQuery \<and> env_truthy (CAPCUT_EMAIL env) \<and> env_truthy (CAPCUT_PASSWORD env)
          then block [
            console_log ''Performing email login...'',
            call env TypeEmail [JStr (case CAPCUT_EMAIL env of None \<Rightarrow> [] | Some s \<Rightarrow> s)],
            call env TypePassword [JStr (case CAPCUT_PASSWORD env of None \<Rightarrow> [] | Some s \<Rightarrow> s)],
            call env SubmitQuery [],
            if 0 < matches env SubmitQuery then call env SubmitClick [] else skip,
            call env Navigation [],
            console_log ''Login done.'']
          else console_log ''Email login not available or credentials missing; ensure account is logged in or provide cookies.''])
       (console_warn ''Login attempt failed; continuing - ensure session is active or update selectors.'')"

subsection \<open>Creating the project (lines 118 to 132)\<close>

definition create_project :: "env \<Rightarrow> stmt" where
  "create_project env =
     try_catch
       (block [
          pause 1500,
          call env NewProjectQuery [],
          if 0 < matches env NewProjectQuery
          then block [call env NewProjectClick [], pause 1200]
          else console_log ''New Project button not found by XPath; try alternative flows.''])
       (console_warn ''Create project step may require manual setup in UI.'')"

subsection \<open>Uploading the files (lines 134 to 159)\<close>

definition upload_step :: "env \<Rightarrow> string list \<Rightarrow> stmt" where
  "upload_step env localFiles =
     try_catch
       (block [
          call env FileInputQuery1 [],
          if matches env FileInputQuery1 = 0
          then block [
            call env UploadQuery [],
            if 0 < matches env UploadQuery
            then block [call env UploadClick [], pause 800]
            else skip]
          else skip,
          call env FileInputQuery2 [],
          if matches env FileInputQuery2 = 0 then throw else skip,
          call env UploadFile (map JStr localFiles),
          console_log ''Uploaded local files to CapCut UI.''])
       (block [
          console_error ''Upload step failed:'',
          call env Close [],
          exit 1])"

subsection \<open>Timeline and captions (lines 161 to 211)\<close>

text \<open>
  \<^verbatim>\<open>Array.isArray(payload.scriptText) ? payload.scriptText : JSON.parse(payload.scriptText || '[]')\<close>.
  \<^verbatim>\<open>JSON.parse\<close> first turns its argument into a string: a number or a boolean prints as a
  JSON text of itself, an object prints as \<^verbatim>\<open>[object Object]\<close>, which is no JSON text.
  \<open>None\<close> is the exception.
\<close>

fun script_obj :: "jsval \<Rightarrow> jsval option" where
  "script_obj (JArr xs) = Some (JArr xs)"
| "script_obj (JStr s) = JSON_parse (if s = [] then ''[]'' else s)"
| "script_obj (JNum m e) = (if m = 0 then JSON_parse ''[]'' else Some (JNum m e))"
| "script_obj (JBool b) = (if b then Some (JBool True) else JSON_parse ''[]'')"
| "script_obj (JObj fs) = None"
| "script_obj v = JSON_parse ''[]''"

text \<open>\<^verbatim>\<open>scriptObj[i].text || scriptObj[i]\<close>, \<open>None\<close> when it throws.\<close>

definition caption_text :: "jsval \<Rightarrow> nat \<Rightarrow> jsval option" where
  "caption_text scriptObj i =
     (case get_index scriptObj i of
        None \<Rightarrow> None
      | Some entry \<Rightarrow>
          (case get_prop entry ''text'' of
             None \<Rightarrow> None
           | Some t \<Rightarrow> Some (js_or t entry)))"

text \<open>The body of the caption loop at index \<open>i\<close>, with its own try and catch.\<close>

definition add_caption :: "env \<Rightarrow> jsval \<Rightarrow> nat \<Rightarrow> stmt" where
  "add_caption env scriptObj i =
     try_catch
       (if 0 < matches env AddTextQuery
        then block [
          call env (AddTextClick i) [],
          pause 400,
          call env (ActiveInputQuery i) [],
          if 0 < matches env (ActiveInputQuery i)
          then block [
            call env (Focus i) [],
            (case caption_text scriptObj i of
               None \<Rightarrow> throw
             | Some v \<Rightarrow> call env (KeyboardType i) [v]),
            pause 300]
          else skip]
        else skip)
       (console_warn ''Add text failed for caption'')"

text \<open>The indices \<open>i\<close> with \<^verbatim>\<open>i < Math.min(6, x)\<close>, counting up from 0.\<close>

definition caption_indices :: "jsnum \<Rightarrow> nat list" where
  "caption_indices x = takeWhile (\<lambda>i. num_less i x) [0..<6]"

definition caption_loop :: "env \<Rightarrow> jsval \<Rightarrow> stmt" where
  "caption_loop env scriptObj =
     (case get_length scriptObj of
        None \<Rightarrow> throw
      | Some len \<Rightarrow>
          (case to_number env len of
             None \<Rightarrow> throw
           | Some x \<Rightarrow> block (map (add_caption env scriptObj) (caption_indices x))))"

definition captions :: "env \<Rightarrow> jsval \<Rightarrow> stmt" where
  "captions env scriptText =
     try_catch
       (block [
          call env TextQuery [],
          if 0 < matches env TextQuery then block [call env TextClick [], pause 600] else skip,
          (case script_obj scriptText of
             None \<Rightarrow> throw
           | Some scriptObj \<Rightarrow> block [call env AddTextQuery [], caption_loop env scriptObj])])
       (console_warn ''Caption insertion partially failed. You may need to update selectors.'')"

definition click_thumb :: "env \<Rightarrow> nat \<Rightarrow> stmt" where
  "click_thumb env i = try_catch (block [call env (ThumbClick i) [], pause 400]) skip"

definition timeline :: "env \<Rightarrow> jsval \<Rightarrow> stmt" where
  "timeline env scriptText =
     try_catch
       (block [
          call env ThumbsWait [],
          call env ThumbsQuery [],
          console_log ''Found thumbnails:'',
          block (map (click_thumb env) [0..<min (matches env ThumbsQuery) 12]),
          if truthy scriptText then captions env scriptText else skip])
       (console_warn ''Timeline population step had issues:'')"

subsection \<open>Export (lines 217 to 228)\<close>

definition export_step :: "env \<Rightarrow> stmt" where
  "export_step env =
     try_catch
       (block [
          call env ExportQuery [],
          if 0 < matches env ExportQuery
          then block [call env ExportClick [], console_log ''Clicked Export.'']
          else console_warn ''Export button not found; you may need to manually export or update selector.''])
       (console_warn ''Export step failed:'')"

subsection \<open>Waiting for the export and fetching it (lines 230 to 254)\<close>

text \<open>\<^verbatim>\<open>fs.writeFileSync(path.join('/tmp', OUTPUT_NAME), buff)\<close>; \<^verbatim>\<open>path.join\<close> throws a TypeError
  on anything but a string.\<close>

fun write_output :: "env \<Rightarrow> jsval \<Rightarrow> stmt" where
  "write_output env (JStr name) =
     call env WriteExport [JStr (path_join ''/tmp'' name), JStr (fetch_body env FetchExport)]"
| "write_output env v = throw"

definition poll_step :: "env \<Rightarrow> jsval \<Rightarrow> stmt" where
  "poll_step env OUTPUT_NAME =
     try_catch
       (block [
          call env DownloadWait [],
          call env DownloadQuery [],
          if 0 < matches env DownloadQuery
          then block [
            call env DownloadEvaluate [],
            console_log ''Export ready at'',
            call env FetchExport [download_href env],
            call env BufferExport [],
            write_output env OUTPUT_NAME,
            console_log ''Saved output to'',
            console_log ''Done.'']
          else console_warn ''Download button found but could not extract URL.''])
       (console_warn ''Export/download polling failed (timeout or selector mismatch).'')"

subsection \<open>The whole script\<close>

text \<open>\<^verbatim>\<open>payload.outputName || `capcut_export_${Date.now()}.mp4`\<close>\<close>

definition output_name :: "env \<Rightarrow> jsval \<Rightarrow> jsval" where
  "output_name env outputName =
     js_or outputName (JStr (''capcut_export_'' @ show_nat (date_now env) @ ''.mp4''))"

text \<open>From the launch of the browser to the end, lines 66 to 257.\<close>

definition session :: "env \<Rightarrow> jsval \<Rightarrow> jsval \<Rightarrow> string list \<Rightarrow> stmt" where
  "session env scriptText OUTPUT_NAME localFiles =
     block [
       bootstrap env,
       login_button env,
       email_login env,
       create_project env,
       upload_step env localFiles,
       timeline env scriptText,
       export_step env,
       poll_step env OUTPUT_NAME,
       call env Close [],
       exit 0]"

text \<open>The staging directory and the first log line, lines 47 to 50.\<close>

definition prepare :: "env \<Rightarrow> stmt" where
  "prepare env =
     and_then (if \<not> tmp_dir_exists env then call env Mkdir [JStr tmpDir] else skip)
       (console_log ''Downloading assets...'')"

text \<open>From the staging directory on, lines 46 to 257, for the three payload fields that
  the script reads.\<close>

definition staged :: "env \<Rightarrow> jsval \<Rightarrow> jsval \<Rightarrow> jsval \<Rightarrow> stmt" where
  "staged env assetUrls scriptText OUTPUT_NAME =
     block [
       prepare env,
       fst (download_loop env assetUrls 0 []),
       session env scriptText OUTPUT_NAME (snd (download_loop env assetUrls 0 []))]"

text \<open>The script on a payload, lines 35 to 257. A property of a payload that passed
  \<^verbatim>\<open>!payload\<close> can be read: the \<open>None\<close> cases are never reached.\<close>

definition run :: "env \<Rightarrow> jsval \<Rightarrow> stmt" where
  "run env payload =
     (if \<not> truthy payload \<or> \<not> truthy (case get_prop payload ''assetUrls'' of None \<Rightarrow> JUndefined | Some a \<Rightarrow> a)
      then block [console_error ''Payload missing required fields. Example: assetUrls[]'', exit 1]
      else
        (case (get_prop payload ''assetUrls'', get_prop payload ''scriptText'', get_prop payload ''outputName'') of
           (Some assetUrls, Some scriptText, Some outputName) \<Rightarrow>
             staged env assetUrls scriptText (output_name env outputName)
         | _ \<Rightarrow> throw))"

text \<open>The script from its first line: the event file is read and parsed, the payload is
  \<^verbatim>\<open>JSON.parse(...).client_payload || {}\<close>.\<close>

definition main :: "env \<Rightarrow> stmt" where
  "main env =
     (case GITHUB_EVENT_PATH env of
        None \<Rightarrow> block [console_error ''GITHUB_EVENT_PATH env var missing. Are you running in GH Actions?'', exit 1]
      | Some eventPath \<Rightarrow>
          if eventPath = []
          then block [console_error ''GITHUB_EVENT_PATH env var missing. Are you running in GH Actions?'', exit 1]
          else
            and_then (call env ReadEvent [JStr eventPath])
              (case JSON_parse (event_file env) of
                 None \<Rightarrow> throw
               | Some ev \<Rightarrow>
                   (case get_prop ev ''client_payload'' of
                      None \<Rightarrow> throw
                    | Some p \<Rightarrow> run env (js_or p (JObj [])))))"

section \<open>Reading a trace\<close>

text \<open>The sites of the calls of a trace, in order.\<close>

fun call_sites :: "event list \<Rightarrow> site list" where
  "call_sites [] = []"
| "call_sites (Call s args # es) = s # call_sites es"
| "call_sites (e # es) = call_sites es"

definition sites :: "stmt \<Rightarrow> site set" where
  "sites s = set (call_sites (fst s))"

text \<open>The step of the script a site belongs to, numbered as the comments of the source
  number them: 1 opens the editor, 2 logs in, 3 creates the project, 4 uploads, 5 fills the
  timeline and the captions, 7 exports, 8 waits for the export and fetches it. Step 6, sound
  effects, has no code. 0 is what comes before the browser, 9 is \<^verbatim>\<open>browser.close()\<close>.\<close>

fun step_of :: "site \<Rightarrow> nat" where
  "step_of ReadEvent = 0"
| "step_of Mkdir = 0"
| "step_of (FetchAsset i) = 0"
| "step_of (BufferAsset i) = 0"
| "step_of (WriteAsset i) = 0"
| "step_of Launch = 1"
| "step_of NewPage = 1"
| "step_of SetViewport = 1"
| "step_of Goto = 1"
| "step_of LoginWait = 2"
| "step_of LoginClick = 2"
| "step_of EmailQuery = 2"
| "step_of TypeEmail = 2"
| "step_of TypePassword = 2"
| "step_of SubmitQuery = 2"
| "step_of SubmitClick = 2"
| "step_of Navigation = 2"
| "step_of NewProjectQuery = 3"
| "step_of NewProjectClick = 3"
| "step_of FileInputQuery1 = 4"
| "step_of UploadQuery = 4"
| "step_of UploadClick = 4"
| "step_of FileInputQuery2 = 4"
| "step_of UploadFile = 4"
| "step_of ThumbsWait = 5"
| "step_of ThumbsQuery = 5"
| "step_of (ThumbClick i) = 5"
| "step_of TextQuery = 5"
| "step_of TextClick = 5"
| "step_of AddTextQuery = 5"
| "step_of (AddTextClick i) = 5"
| "step_of (ActiveInputQuery i) = 5"
| "step_of (Focus i) = 5"
| "step_of (KeyboardType i) = 5"
| "step_of ExportQuery = 7"
| "step_of ExportClick = 7"
| "step_of DownloadWait = 8"
| "step_of DownloadQuery = 8"
| "step_of DownloadEvaluate = 8"
| "step_of FetchExport = 8"
| "step_of BufferExport = 8"
| "step_of WriteExport = 8"
| "step_of Close = 9"

section \<open>A cooperative world\<close>

text \<open>An environment in which every call returns, every query finds one element and
  every fetch answers 200. The examples below change it where a step is to fail.\<close>

definition env_ok :: env where
  \<open>env_ok =
     \<lparr>GITHUB_EVENT_PATH = Some ''/home/runner/work/_temp/_github_workflow/event.json'',
      CAPCUT_EMAIL = None,
      CAPCUT_PASSWORD = None,
      CHROME_EXEC = None,
      date_now = 1761004800000,
      event_file = ''{"client_payload":{"assetUrls":["http://x/a.mp4"],"outputName":"out.mp4"}}'',
      tmp_dir_exists = False,
      returns = (\<lambda>s. True),
      matches = (\<lambda>s. 1),
      fetch_status = (\<lambda>s. 200),
      fetch_body = (\<lambda>s. ''video''),
      download_href = JStr ''https://cdn.example/export.mp4'',
      coerce_number = (\<lambda>v. Some NaN)\<rparr>\<close>

text \<open>A world in which the second asset answers 404.\<close>

definition env_404 :: env where
  "env_404 = env_ok\<lparr>fetch_status := (\<lambda>s. if s = FetchAsset 1 then 404 else 200)\<rparr>"

text \<open>A world with no file input on the page, before or after the fallback.\<close>

definition env_no_file_input :: env where
  "env_no_file_input = env_ok\<lparr>matches := (\<lambda>s. if s = FileInputQuery1 \<or> s = FileInputQuery2 then 0 else 1)\<rparr>"

text \<open>A world in which the completion indicator never appears: the wait of line 233 times out.\<close>

definition env_export_timeout :: env where
  "env_export_timeout = env_ok\<lparr>returns := (\<lambda>s. s \<noteq> DownloadWait)\<rparr>"

text \<open>Sample payloads.\<close>

definition three_assets :: jsval where
  "three_assets = JObj [(''assetUrls'', JArr [JStr ''http://x/a.mp4'', JStr ''http://x/b.png'', JStr ''http://x/c.mp4''])]"

text \<open>The loop saves the asset at index \<open>j\<close>: the fetch returns with a status in the
  range 200 to 299, the body is read and the file is written. \<open>saved_trace\<close> is what
  the iteration then does.\<close>

definition asset_saved :: "env \<Rightarrow> nat \<Rightarrow> bool" where
  "asset_saved env j =
     (returns env (FetchAsset j) \<and> response_ok env (FetchAsset j)
      \<and> returns env (BufferAsset j) \<and> returns env (WriteAsset j))"

definition saved_trace :: "env \<Rightarrow> nat \<Rightarrow> string \<Rightarrow> event list" where
  "saved_trace env j url =
     [Call (FetchAsset j) [JStr url],
      Call (BufferAsset j) [],
      Call (WriteAsset j) [JStr (asset_filename j url), JStr (fetch_body env (FetchAsset j))],
      ConsoleLog ''Saved'']"

text \<open>The payload of the end-to-end scenario of the specification, and one whose output
  name climbs out of the directory.\<close>

definition spec_payload :: jsval where
  \<open>spec_payload = JObj [(''assetUrls'', JArr [JStr ''http://x/a.mp4'']),
     (''scriptText'', JStr ''[{"text":"Hook"}]''), (''outputName'', JStr ''out.mp4'')]\<close>

definition escaping_name :: jsval where
  "escaping_name = JObj [(''assetUrls'', JArr [JStr ''http://x/a.mp4'']), (''outputName'', JStr ''../var/out.mp4'')]"

text \<open>Two payloads that differ in \<^verbatim>\<open>sfx\<close> and \<^verbatim>\<open>template\<close> only.\<close>

definition with_sfx :: jsval where
  "with_sfx = JObj [(''projectName'', JStr ''TV-20251021-001''), (''template'', JStr ''hybrid_action_meme_v2''),
     (''assetUrls'', JArr [JStr ''http://x/a.mp4'']), (''scriptText'', JArr [JObj [(''time'', JNum 0 0), (''text'', JStr ''Hook'')]]),
     (''sfx'', JArr [JStr ''boing.mp3'', JStr ''recordscratch.mp3'']), (''outputName'', JStr ''out.mp4'')]"

definition without_sfx :: jsval where
  "without_sfx = JObj [(''projectName'', JStr ''TV-20251021-001''),
     (''assetUrls'', JArr [JStr ''http://x/a.mp4'']), (''scriptText'', JArr [JObj [(''time'', JNum 0 0), (''text'', JStr ''Hook'')]]),
     (''sfx'', JNum 7 0), (''outputName'', JStr ''out.mp4'')]"

text \<open>Caption entries of every kind: a plain string, an entry with a text, one with an empty
  text and one with none.\<close>

definition mixed_entries :: "jsval list" where
  "mixed_entries = [JStr ''Hook'', JObj [(''time'', JNum 0 0), (''text'', JStr ''Punchline'')],
     JObj [(''time'', JNum 3 0), (''text'', JStr [])], JObj [(''time'', JNum 5 0)]]"

text \<open>A script given as plain text, and the same text as a list of one entry.\<close>

definition plain_text_script :: jsval where
  "plain_text_script = JObj [(''scriptText'', JStr ''Hello world''), (''assetUrls'', JArr [JStr ''http://x/a.mp4''])]"

definition listed_script :: jsval where
  "listed_script = JObj [(''scriptText'', JArr [JStr ''Hello world'']), (''assetUrls'', JArr [JStr ''http://x/a.mp4''])]"

text \<open>\<^verbatim>\<open>localFiles\<close> after a loop that saved every asset of a list of URL strings.\<close>

definition local_files :: "string list \<Rightarrow> string list" where
  "local_files urls = map (\<lambda>j. asset_filename j (urls ! j)) [0..<length urls]"


text \<open>How many calls of a trace are at sites of a given kind: clicks on the \<^verbatim>\<open>Add text\<close>
  button, calls of \<^verbatim>\<open>page.keyboard.type\<close>.\<close>

fun is_add_text_click :: "site \<Rightarrow> bool" where
  "is_add_text_click (AddTextClick i) = True"
| "is_add_text_click s = False"

fun is_keyboard_type :: "site \<Rightarrow> bool" where
  "is_keyboard_type (KeyboardType i) = True"
| "is_keyboard_type s = False"

definition count_calls :: "(site \<Rightarrow> bool) \<Rightarrow> stmt \<Rightarrow> nat" where
  "count_calls P a = length (filter P (call_sites (fst a)))"

text \<open>A predicate that holds of caption clicks and caption typing only.\<close>

definition caption_only :: "(site \<Rightarrow> bool) \<Rightarrow> bool" where
  "caption_only P = (\<forall>x. P x \<longrightarrow> (\<exists>i. x = AddTextClick i) \<or> (\<exists>i. x = KeyboardType i))"

text \<open>A statement that ends without \<^verbatim>\<open>process.exit\<close>: control goes on, or an exception propagates.\<close>

definition plain :: "stmt \<Rightarrow> bool" where
  "plain a = (snd a = Next \<or> snd a = Throw)"

section \<open>Facts about the statements\<close>

lemma call_sites_append [simp]: "call_sites (xs @ ys) = call_sites xs @ call_sites ys"
  by (induction xs rule: call_sites.induct) auto

lemma call_in_sites: "Call s args \<in> set (fst a) \<Longrightarrow> s \<in> sites a"
proof -
  have "Call s args \<in> set es \<Longrightarrow> s \<in> set (call_sites es)" for es
    by (induction es rule: call_sites.induct) auto
  then show "Call s args \<in> set (fst a) \<Longrightarrow> s \<in> sites a" by (simp add: sites_def)
qed

lemma sites_basic [simp]:
  "sites skip = {}" "sites throw = {}" "sites (exit n) = {}"
  "sites (console_error m) = {}" "sites (console_warn m) = {}" "sites (console_log m) = {}"
  "sites (pause ms) = {}" "sites (call env s args) = {s}"
  by (simp_all add: sites_def skip_def throw_def exit_def console_error_def console_warn_def
      console_log_def pause_def call_def)

lemma flow_basic [simp]:
  "snd skip = Next" "snd throw = Throw" "snd (exit n) = Exit n"
  "snd (console_error m) = Next" "snd (console_warn m) = Next" "snd (console_log m) = Next"
  "snd (pause ms) = Next" "snd (call env s args) = (if returns env s then Next else Throw)"
  by (simp_all add: skip_def throw_def exit_def console_error_def console_warn_def
      console_log_def pause_def call_def)

lemma snd_and_then: "snd (and_then a b) = (if snd a = Next then snd b else snd a)"
  by (simp add: and_then_def)

lemma fst_and_then: "fst (and_then a b) = (if snd a = Next then fst a @ fst b else fst a)"
  by (simp add: and_then_def)

lemma sites_and_then: "sites (and_then a b) = (if snd a = Next then sites a \<union> sites b else sites a)"
  by (simp add: and_then_def sites_def)

lemma snd_try_catch: "snd (try_catch a h) = (if snd a = Throw then snd h else snd a)"
  by (simp add: try_catch_def and_then_def)

lemma fst_try_catch: "fst (try_catch a h) = (if snd a = Throw then fst a @ fst h else fst a)"
  by (simp add: try_catch_def and_then_def)

lemma sites_try_catch: "sites (try_catch a h) = (if snd a = Throw then sites a \<union> sites h else sites a)"
  by (simp add: try_catch_def and_then_def sites_def)

lemma in_sites_and_then: "x \<in> sites (and_then a b) \<Longrightarrow> x \<in> sites a \<or> x \<in> sites b"
  by (auto simp: sites_and_then split: if_splits)

lemma in_sites_try_catch: "x \<in> sites (try_catch a h) \<Longrightarrow> x \<in> sites a \<or> x \<in> sites h"
  by (auto simp: sites_try_catch split: if_splits)

lemma in_sites_block_map: "x \<in> sites (block (map f xs)) \<Longrightarrow> \<exists>i\<in>set xs. x \<in> sites (f i)"
  by (induction xs) (auto dest!: in_sites_and_then)

lemma step_login_button: "x \<in> sites (login_button env) \<Longrightarrow> step_of x = 2"
  by (auto simp: login_button_def dest!: in_sites_try_catch in_sites_and_then split: if_splits)

lemma step_email_login: "x \<in> sites (email_login env) \<Longrightarrow> step_of x = 2"
  by (auto simp: email_login_def dest!: in_sites_try_catch in_sites_and_then split: if_splits)

lemma step_create_project: "x \<in> sites (create_project env) \<Longrightarrow> step_of x = 3"
  by (auto simp: create_project_def dest!: in_sites_try_catch in_sites_and_then split: if_splits)

lemma step_bootstrap: "x \<in> sites (bootstrap env) \<Longrightarrow> step_of x = 1"
  by (auto simp: bootstrap_def dest!: in_sites_try_catch in_sites_and_then split: if_splits)

lemma step_upload_step: "x \<in> sites (upload_step env files) \<Longrightarrow> step_of x = 4 \<or> x = Close"
  by (auto simp: upload_step_def dest!: in_sites_try_catch in_sites_and_then split: if_splits)

lemma step_export_step: "x \<in> sites (export_step env) \<Longrightarrow> step_of x = 7"
  by (auto simp: export_step_def dest!: in_sites_try_catch in_sites_and_then split: if_splits)

lemma sites_write_output: "x \<in> sites (write_output env v) \<Longrightarrow> x = WriteExport"
  by (cases v) auto

lemma step_poll_step: "x \<in> sites (poll_step env out) \<Longrightarrow> step_of x = 8"
  by (auto simp: poll_step_def dest!: in_sites_try_catch in_sites_and_then sites_write_output split: if_splits)

lemma step_add_caption: "x \<in> sites (add_caption env obj i) \<Longrightarrow> step_of x = 5"
  by (auto simp: add_caption_def dest!: in_sites_try_catch in_sites_and_then split: if_splits option.splits)

lemma step_caption_loop: "x \<in> sites (caption_loop env obj) \<Longrightarrow> step_of x = 5"
  by (auto simp: caption_loop_def dest!: in_sites_block_map step_add_caption split: option.splits)

lemma step_captions: "x \<in> sites (captions env st) \<Longrightarrow> step_of x = 5"
  by (auto simp: captions_def dest!: in_sites_try_catch in_sites_and_then step_caption_loop split: if_splits option.splits)

lemma step_click_thumb: "x \<in> sites (click_thumb env i) \<Longrightarrow> step_of x = 5"
  by (auto simp: click_thumb_def dest!: in_sites_try_catch in_sites_and_then split: if_splits)

lemma step_timeline: "x \<in> sites (timeline env st) \<Longrightarrow> step_of x = 5"
  by (auto simp: timeline_def dest!: in_sites_try_catch in_sites_and_then in_sites_block_map step_click_thumb step_captions split: if_splits)

lemma sites_download_one: "x \<in> sites (download_one env i url) \<Longrightarrow> x \<in> {FetchAsset i, BufferAsset i, WriteAsset i}"
  by (auto simp: download_one_def dest!: in_sites_and_then split: if_splits)

lemma sites_download_loop:
  "x \<in> sites (fst (download_loop env a i files)) \<Longrightarrow> \<exists>j\<ge>i. x \<in> {FetchAsset j, BufferAsset j, WriteAsset j}"
proof (induction env a i files rule: download_loop.induct)
  case (1 env a i files)
  show ?case
  proof (cases "\<exists>len n url. get_length a = Some len \<and> to_number env len = Some n \<and> num_less i n
      \<and> get_index a i = Some (JStr url)")
    case False
    with "1.prems" show ?thesis
      by (subst (asm) download_loop.simps) (auto split: option.splits jsval.splits if_splits)
  next
    case True
    then obtain len n url where h: "get_length a = Some len" "to_number env len = Some n" "num_less i n"
      "get_index a i = Some (JStr url)" by blast
    show ?thesis
    proof (cases "snd (download_one env i url) = Next")
      case False
      with h "1.prems" have "x \<in> sites (download_one env i url)"
        by (subst (asm) download_loop.simps) simp
      then show ?thesis by (auto dest!: sites_download_one)
    next
      case True
      with h "1.prems" have "x \<in> sites (download_one env i url) \<or>
          x \<in> sites (fst (download_loop env a (Suc i) (files @ [asset_filename i url])))"
        by (subst (asm) download_loop.simps) (auto dest!: in_sites_and_then)
      then show ?thesis
      proof
        assume "x \<in> sites (download_one env i url)"
        then show ?thesis by (auto dest!: sites_download_one)
      next
        assume "x \<in> sites (fst (download_loop env a (Suc i) (files @ [asset_filename i url])))"
        from "1.IH" [OF h(1) h(2) _ h(4) _ True this] h(3)
        show ?thesis by (auto intro: Suc_leD)
      qed
    qed
  qed
qed


lemma truthy_get_prop: "truthy p \<Longrightarrow> \<exists>v. get_prop p k = Some v"
  by (cases p) (auto split: option.splits)

lemma download_loop_empty: "download_loop env (JArr []) 0 [] = (skip, [])"
  by (subst download_loop.simps) simp

lemma upt_numeral_eval: "[i..<numeral n] = (if i < numeral n then i # [Suc i..<numeral n] else [])"
  by (rule upt_rec)

text \<open>The equations that evaluate a run on a concrete payload in a concrete world.\<close>

lemmas eval = run_def staged_def prepare_def session_def bootstrap_def login_button_def email_login_def
  create_project_def upload_step_def timeline_def captions_def caption_loop_def add_caption_def
  caption_text_def caption_indices_def click_thumb_def export_step_def poll_step_def output_name_def
  chrome_exec_def download_one_def download_loop.simps asset_filename_def asset_ext_def tmpDir_def
  response_ok_def and_then_def try_catch_def call_def skip_def throw_def exit_def console_error_def
  console_warn_def console_log_def pause_def js_or_def sites_def env_ok_def
  path_join_def path_normalize_def path_extname_def show_nat.simps digit_char_def
  JSON_parse_def is_ws_def is_digit_def is_num_char_def is_word_char_def key_colon_def word_token_def
  parse_number_def parse_exponent_def nat_of_digits_def digit_val_def index_of_def
  upt_numeral_eval

lemma in_fst_and_then: "e \<in> set (fst (and_then a b)) \<Longrightarrow> e \<in> set (fst a) \<or> e \<in> set (fst b)"
  by (auto simp: fst_and_then split: if_splits)

lemma in_fst_try_catch: "e \<in> set (fst (try_catch a h)) \<Longrightarrow> e \<in> set (fst a) \<or> e \<in> set (fst h)"
  by (auto simp: fst_try_catch split: if_splits)

lemma reach: "x \<in> sites (and_then a b) \<Longrightarrow> x \<notin> sites a \<Longrightarrow> snd a = Next \<and> x \<in> sites b"
  by (auto simp: sites_and_then split: if_splits)

lemma download_loop_step:
  assumes "get_length a = Some len" "to_number env len = Some n" "num_less i n"
    "get_index a i = Some (JStr url)"
  shows "download_loop env a i files =
     (if snd (download_one env i url) = Next
      then (and_then (download_one env i url)
              (fst (download_loop env a (Suc i) (files @ [asset_filename i url]))),
            snd (download_loop env a (Suc i) (files @ [asset_filename i url])))
      else (download_one env i url, files))"
  using assms by (subst download_loop.simps) simp

lemma download_loop_stop:
  assumes "\<not> (\<exists>len n url. get_length a = Some len \<and> to_number env len = Some n \<and> num_less i n
      \<and> get_index a i = Some (JStr url))"
  shows "sites (fst (download_loop env a i files)) = {}"
    and "snd (fst (download_loop env a i files)) \<noteq> Exit k"
  using assms
  by (subst download_loop.simps; auto split: option.splits jsval.splits if_splits)+

lemma download_one_failed:
  assumes "returns env (FetchAsset i)" "\<not> response_ok env (FetchAsset i)"
  shows "download_one env i url = ([Call (FetchAsset i) [JStr url], ConsoleError ''Failed to download asset''], Exit 1)"
  using assms
  by (simp add: download_one_def and_then_def call_def console_error_def exit_def skip_def)

lemma fetch_in_download_one: "FetchAsset j \<in> sites (download_one env i url) \<Longrightarrow> j = i"
  by (auto dest!: sites_download_one)

lemma download_loop_failed:
  assumes "FetchAsset i \<in> sites (fst (download_loop env a k files))"
    "returns env (FetchAsset i)" "\<not> response_ok env (FetchAsset i)"
  shows "snd (fst (download_loop env a k files)) = Exit 1
    \<and> (\<forall>j. FetchAsset j \<in> sites (fst (download_loop env a k files)) \<longrightarrow> j \<le> i)
    \<and> (\<exists>pre args. fst (fst (download_loop env a k files))
          = pre @ [Call (FetchAsset i) args, ConsoleError ''Failed to download asset''])"
  using assms
proof (induction env a k files rule: download_loop.induct)
  case (1 env a k files)
  show ?case
  proof (cases "\<exists>len n url. get_length a = Some len \<and> to_number env len = Some n \<and> num_less k n
      \<and> get_index a k = Some (JStr url)")
    case False
    from download_loop_stop(1) [OF False] "1.prems"(1) show ?thesis by simp
  next
    case True
    then obtain len n url where h: "get_length a = Some len" "to_number env len = Some n" "num_less k n"
      "get_index a k = Some (JStr url)" by blast
    note step = download_loop_step [OF h, of files]
    let ?rest = "download_loop env a (Suc k) (files @ [asset_filename k url])"
    show ?thesis
    proof (cases "k = i")
      case True
      with "1.prems" step show ?thesis
        by (simp add: download_one_failed sites_def)
    next
      case ki: False
      then have notin: "FetchAsset i \<notin> sites (download_one env k url)"
        by (auto dest!: fetch_in_download_one)
      show ?thesis
      proof (cases "snd (download_one env k url) = Next")
        case False
        with step "1.prems"(1) notin show ?thesis by simp
      next
        case nx: True
        with step "1.prems"(1) notin have inrest: "FetchAsset i \<in> sites (fst ?rest)"
          by (auto dest!: in_sites_and_then)
        from "1.IH" [OF h(1) h(2) _ h(4) _ nx inrest "1.prems"(2,3)] h(3)
        have ih: "snd (fst ?rest) = Exit 1"
          "\<forall>j. FetchAsset j \<in> sites (fst ?rest) \<longrightarrow> j \<le> i"
          "\<exists>pre args. fst (fst ?rest) = pre @ [Call (FetchAsset i) args, ConsoleError ''Failed to download asset'']"
          by auto
        from sites_download_loop [OF inrest] have "Suc k \<le> i" by auto
        with ih(2) have "\<forall>j. FetchAsset j \<in> sites (and_then (download_one env k url) (fst ?rest)) \<longrightarrow> j \<le> i"
          by (auto dest!: in_sites_and_then fetch_in_download_one)
        moreover from ih(3) obtain pre args where
          "fst (fst ?rest) = pre @ [Call (FetchAsset i) args, ConsoleError ''Failed to download asset'']" by blast
        then have "fst (and_then (download_one env k url) (fst ?rest))
            = (fst (download_one env k url) @ pre) @ [Call (FetchAsset i) args, ConsoleError ''Failed to download asset'']"
          using nx by (simp add: fst_and_then)
        ultimately show ?thesis using step nx ih(1) by (auto simp: snd_and_then simp del: append_assoc)
      qed
    qed
  qed
qed


lemma step_session: "x \<in> sites (session env st out files) \<Longrightarrow> 1 \<le> step_of x"
  by (auto simp: session_def dest!: in_sites_and_then step_bootstrap step_login_button step_email_login
      step_create_project step_upload_step step_timeline step_export_step step_poll_step)

lemma run_cases:
  obtains "run env payload = ([ConsoleError ''Payload missing required fields. Example: assetUrls[]''], Exit 1)"
  | a st out where "truthy payload" "truthy a" "get_prop payload ''assetUrls'' = Some a"
      "get_prop payload ''scriptText'' = Some st" "get_prop payload ''outputName'' = Some out"
      "run env payload = staged env a st (output_name env out)"
proof (cases "\<not> truthy payload \<or> \<not> truthy (case get_prop payload ''assetUrls'' of None \<Rightarrow> JUndefined | Some a \<Rightarrow> a)")
  case True
  then have "run env payload = ([ConsoleError ''Payload missing required fields. Example: assetUrls[]''], Exit 1)"
    by (simp add: run_def and_then_def console_error_def exit_def skip_def)
  then show ?thesis by (rule that(1))
next
  case False
  then have t: "truthy payload" by simp
  from truthy_get_prop [OF t] obtain a where a: "get_prop payload ''assetUrls'' = Some a" by blast
  from truthy_get_prop [OF t] obtain st where st: "get_prop payload ''scriptText'' = Some st" by blast
  from truthy_get_prop [OF t] obtain out where out: "get_prop payload ''outputName'' = Some out" by blast
  from False a have ta: "truthy a" by simp
  from False a st out have "run env payload = staged env a st (output_name env out)"
    by (simp add: run_def)
  with t ta a st out show ?thesis by (rule that(2))
qed

lemma staged_eq:
  "staged env a st out =
     and_then (prepare env) (and_then (fst (download_loop env a 0 [])) (session env st out (snd (download_loop env a 0 []))))"
  by (cases "session env st out (snd (download_loop env a 0 []))")
     (auto simp: staged_def and_then_def skip_def)

lemma snd_prepare: "snd (prepare env) = (if tmp_dir_exists env \<or> returns env Mkdir then Next else Throw)"
  by (simp add: prepare_def snd_and_then)

lemma sites_prepare: "x \<in> sites (prepare env) \<Longrightarrow> x = Mkdir"
  by (auto simp: prepare_def dest!: in_sites_and_then split: if_splits)

lemma step_staged_stop:
  assumes "snd (fst (download_loop env a 0 [])) \<noteq> Next" "x \<in> sites (staged env a st out)"
  shows "step_of x = 0"
  using assms
  by (auto simp: staged_eq sites_and_then split: if_splits dest!: sites_prepare sites_download_loop)


lemma download_one_saved:
  "asset_saved env j \<Longrightarrow> download_one env j url = (saved_trace env j url, Next)"
  by (simp add: asset_saved_def download_one_def saved_trace_def and_then_def call_def
      console_log_def skip_def)

lemma download_loop_done:
  "download_loop env (JArr xs) (length xs) files = (skip, files)"
  by (subst download_loop.simps) simp

lemma download_loop_all_saved:
  assumes "\<forall>j<length urls. asset_saved env j" "k \<le> length urls"
  shows "download_loop env (JArr (map JStr urls)) k files =
     ((concat (map (\<lambda>j. saved_trace env j (urls ! j)) [k..<length urls]), Next),
      files @ map (\<lambda>j. asset_filename j (urls ! j)) [k..<length urls])"
  using assms(2)
proof (induction "length urls - k" arbitrary: k files)
  case 0
  then have "k = length urls" by simp
  then show ?case using download_loop_done [of env "map JStr urls" files]
    by (simp add: skip_def)
next
  case (Suc d)
  then have k: "k < length urls" by simp
  have h: "get_length (JArr (map JStr urls)) = Some (JNum (int (length urls)) 0)"
    "to_number env (JNum (int (length urls)) 0) = Some (Dec (int (length urls)) 0)"
    "num_less k (Dec (int (length urls)) 0)"
    "get_index (JArr (map JStr urls)) k = Some (JStr (urls ! k))"
    using k by simp_all
  from assms(1) k have saved: "download_one env k (urls ! k) = (saved_trace env k (urls ! k), Next)"
    by (simp add: download_one_saved)
  from Suc(2) k have d: "d = length urls - Suc k" by simp
  from Suc(1) [OF d, of "files @ [asset_filename k (urls ! k)]"] k
  have ih: "download_loop env (JArr (map JStr urls)) (Suc k) (files @ [asset_filename k (urls ! k)]) =
     ((concat (map (\<lambda>j. saved_trace env j (urls ! j)) [Suc k..<length urls]), Next),
      (files @ [asset_filename k (urls ! k)]) @ map (\<lambda>j. asset_filename j (urls ! j)) [Suc k..<length urls])"
    by simp
  show ?case
    using k by (simp add: download_loop_step [OF h] saved ih and_then_def upt_conv_Cons)
qed

lemma digit_char_digit: "d < 10 \<Longrightarrow> digit_char d \<in> set ''0123456789''"
  unfolding digit_char_def by (rule nth_mem) simp

lemma show_nat_digits: "set (show_nat n) \<subseteq> set ''0123456789''"
proof (induction n rule: show_nat.induct)
  case (1 n)
  show ?case
  proof (cases "n < 10")
    case True
    then have "show_nat n = [digit_char n]" by (subst show_nat.simps) simp
    with True digit_char_digit [of n] show ?thesis by simp
  next
    case False
    then have "show_nat n = show_nat (n div 10) @ [digit_char (n mod 10)]"
      by (subst show_nat.simps) simp
    moreover have "digit_char (n mod 10) \<in> set ''0123456789''" by (rule digit_char_digit) simp
    ultimately show ?thesis using "1.IH" [OF False] by simp
  qed
qed

lemma show_nat_no_slash: "CHR ''/'' \<notin> set (show_nat n)"
  using show_nat_digits [of n] by auto

lemma show_nat_no_dot: "CHR ''.'' \<notin> set (show_nat n)"
  using show_nat_digits [of n] by auto

lemma split_on_nonempty: "split_on c s \<noteq> []"
  by (induction s) (auto split: list.splits)

lemma hd_split_on: "hd (split_on c s) = takeWhile (\<lambda>x. x \<noteq> c) s"
  by (induction s) (auto split: list.splits simp: split_on_nonempty)

lemma split_on_none: "c \<notin> set s \<Longrightarrow> split_on c s = [s]"
  by (induction s) auto

lemma path_extname_shape:
  "path_extname p = [] \<or> (\<exists>e. path_extname p = CHR ''.'' # e \<and> CHR ''/'' \<notin> set e)"
proof -
  let ?comp = "takeWhile (\<lambda>c. c \<noteq> CHR ''/'') (dropWhile (\<lambda>c. c = CHR ''/'') (rev p))"
  have "CHR ''/'' \<notin> set ?comp" by (auto dest: set_takeWhileD)
  then have "CHR ''/'' \<notin> set (takeWhile (\<lambda>c. c \<noteq> CHR ''.'') ?comp)" by (auto dest: set_takeWhileD)
  then show ?thesis by (auto simp: path_extname_def Let_def)
qed

lemma asset_ext_shape: "\<exists>e. asset_ext url = CHR ''.'' # e \<and> CHR ''/'' \<notin> set e"
proof -
  from path_extname_shape [of url] show ?thesis
  proof
    assume "path_extname url = []"
    then show ?thesis by (simp add: asset_ext_def)
  next
    assume "\<exists>e. path_extname url = CHR ''.'' # e \<and> CHR ''/'' \<notin> set e"
    then obtain e where e: "path_extname url = CHR ''.'' # e" "CHR ''/'' \<notin> set e" by blast
    then have "asset_ext url = CHR ''.'' # takeWhile (\<lambda>x. x \<noteq> CHR ''?'') e"
      by (simp add: asset_ext_def hd_split_on del: split_on.simps)
    moreover from e(2) have "CHR ''/'' \<notin> set (takeWhile (\<lambda>x. x \<noteq> CHR ''?'') e)"
      by (auto dest: set_takeWhileD)
    ultimately show ?thesis by blast
  qed
qed

lemma path_join_tmpDir:
  assumes "CHR ''/'' \<notin> set seg"
  shows "path_join tmpDir (CHR ''a'' # seg) = ''/tmp/capcut_assets/a'' @ seg"
proof -
  have l: "last (''/tmp/capcut_assets/a'' @ seg) \<noteq> CHR ''/''"
    using assms by (cases seg rule: rev_cases) auto
  have s: "split_on CHR ''/'' (CHR ''a'' # seg) = [CHR ''a'' # seg]"
    using assms by (simp add: split_on_none)
  show ?thesis
    using l s by (simp add: path_join_def path_normalize_def tmpDir_def)
qed

lemma asset_filename_eq:
  "asset_filename i url = ''/tmp/capcut_assets/asset_'' @ show_nat i @ asset_ext url"
proof -
  from asset_ext_shape obtain e where e: "asset_ext url = CHR ''.'' # e" "CHR ''/'' \<notin> set e" by blast
  then have "CHR ''/'' \<notin> set (''sset_'' @ show_nat i @ asset_ext url)"
    by (simp add: show_nat_no_slash)
  from path_join_tmpDir [OF this] show ?thesis by (simp add: asset_filename_def)
qed

lemma asset_filename_inj:
  assumes "asset_filename i u = asset_filename j v"
  shows "i = j"
proof -
  from asset_ext_shape obtain e where e: "asset_ext u = CHR ''.'' # e" by blast
  from asset_ext_shape obtain f where f: "asset_ext v = CHR ''.'' # f" by blast
  from assms have "show_nat i @ CHR ''.'' # e = show_nat j @ CHR ''.'' # f"
    by (simp add: asset_filename_eq e f)
  then have "takeWhile (\<lambda>c. c \<noteq> CHR ''.'') (show_nat i @ CHR ''.'' # e)
      = takeWhile (\<lambda>c. c \<noteq> CHR ''.'') (show_nat j @ CHR ''.'' # f)" by simp
  moreover have "takeWhile (\<lambda>c. c \<noteq> CHR ''.'') (show_nat k @ CHR ''.'' # g) = show_nat k" for k g
    by (subst takeWhile_append2) (use show_nat_no_dot in auto)
  ultimately have "show_nat i = show_nat j" by simp
  then show ?thesis by (rule show_nat_inj)
qed

lemma distinct_asset_filenames:
  "distinct (map (\<lambda>j. asset_filename j (urls ! j)) [0..<n])"
  by (auto simp: distinct_map inj_on_def dest: asset_filename_inj)

lemma normalize_segments_plain:
  "''..'' \<notin> set ss \<Longrightarrow>
   normalize_segments climb kept ss = rev kept @ filter (\<lambda>s. s \<noteq> [] \<and> s \<noteq> ''.'') ss"
  by (induction ss arbitrary: kept) auto

lemma join_with_tmp: "\<exists>t. join_with ''/'' (''tmp'' # xs) = ''tmp'' @ t \<and> (t = [] \<or> hd t = CHR ''/'')"
  by (cases xs) auto

lemma split_on_tmp: "split_on CHR ''/'' (''/tmp/'' @ name) = [] # ''tmp'' # split_on CHR ''/'' name"
  by (simp add: split_on_nonempty split: list.splits)

lemma path_normalize_tmp:
  assumes "p = ''/tmp/'' @ name" "name \<noteq> []" "''..'' \<notin> set (split_on CHR ''/'' name)"
  shows "\<exists>t. path_normalize p = ''/tmp'' @ t \<and> (t = [] \<or> hd t = CHR ''/'')"
proof -
  let ?segs = "filter (\<lambda>s. s \<noteq> [] \<and> s \<noteq> ''.'') (split_on CHR ''/'' name)"
  from assms(1) have p: "p \<noteq> []" "hd p = CHR ''/''" by simp_all
  from assms(1) have sp: "split_on CHR ''/'' p = [] # ''tmp'' # split_on CHR ''/'' name"
    by (simp add: split_on_tmp)
  from assms(3) have n: "normalize_segments False [] (split_on CHR ''/'' p) = ''tmp'' # ?segs"
    by (simp add: sp normalize_segments_plain)
  from join_with_tmp obtain t where t: "join_with ''/'' (''tmp'' # ?segs) = ''tmp'' @ t" "t = [] \<or> hd t = CHR ''/''"
    by blast
  have "path_normalize p = ''/tmp'' @ (t @ (if last p = CHR ''/'' then ''/'' else []))"
    using p by (simp add: path_normalize_def n t(1) del: join_with.simps)
  moreover have "t @ (if last p = CHR ''/'' then ''/'' else []) = [] \<or>
      hd (t @ (if last p = CHR ''/'' then ''/'' else [])) = CHR ''/''"
    using t(2) by (cases t) auto
  ultimately show ?thesis by blast
qed

lemma path_join_tmp_plain:
  assumes "''..'' \<notin> set (split_on CHR ''/'' name)"
  shows "path_join ''/tmp'' name = ''/tmp'' \<or> take 5 (path_join ''/tmp'' name) = ''/tmp/''"
proof (cases "name = []")
  case True
  then show ?thesis by (simp add: path_join_def path_normalize_def)
next
  case False
  then have "path_join ''/tmp'' name = path_normalize (''/tmp/'' @ name)"
    by (simp add: path_join_def)
  moreover from path_normalize_tmp [OF refl False assms] obtain t where
    "path_normalize (''/tmp/'' @ name) = ''/tmp'' @ t" "t = [] \<or> hd t = CHR ''/''" by blast
  ultimately show ?thesis by (cases t) auto
qed

lemma path_join_default_name:
  "path_join ''/tmp'' (''capcut_export_'' @ show_nat n @ ''.mp4'')
     = ''/tmp/capcut_export_'' @ show_nat n @ ''.mp4''"
proof -
  have "CHR ''/'' \<notin> set (''capcut_export_'' @ show_nat n @ ''.mp4'')"
    by (simp add: show_nat_no_slash)
  then have s: "split_on CHR ''/'' (''capcut_export_'' @ show_nat n @ ''.mp4'')
      = [''capcut_export_'' @ show_nat n @ ''.mp4'']"
    by (rule split_on_none)
  have "split_on CHR ''/'' (''/tmp/'' @ ''capcut_export_'' @ show_nat n @ ''.mp4'')
      = [[], ''tmp'', ''capcut_export_'' @ show_nat n @ ''.mp4'']"
    by (simp only: split_on_tmp s)
  then show ?thesis
    by (simp add: path_join_def path_normalize_def)
qed

lemma fst_basic [simp]:
  "fst skip = []" "fst throw = []" "fst (exit n) = []"
  "fst (console_error m) = [ConsoleError m]" "fst (console_warn m) = [ConsoleWarn m]"
  "fst (console_log m) = [ConsoleLog m]"
  "fst (pause ms) = [Pause ms]" "fst (call env s args) = [Call s args]"
  by (simp_all add: skip_def throw_def exit_def console_error_def console_warn_def
      console_log_def pause_def call_def)

lemma upload_args:
  "Call UploadFile args \<in> set (fst (upload_step env files)) \<Longrightarrow> args = map JStr files"
  by (auto simp: upload_step_def dest!: in_fst_try_catch in_fst_and_then split: if_splits)

lemma session_upload_args:
  assumes "Call UploadFile args \<in> set (fst (session env st out files))"
  shows "args = map JStr files"
proof -
  from assms have "Call UploadFile args \<in> set (fst (upload_step env files))
      \<or> UploadFile \<in> sites (bootstrap env) \<or> UploadFile \<in> sites (login_button env)
      \<or> UploadFile \<in> sites (email_login env) \<or> UploadFile \<in> sites (create_project env)
      \<or> UploadFile \<in> sites (timeline env st) \<or> UploadFile \<in> sites (export_step env)
      \<or> UploadFile \<in> sites (poll_step env out)"
    by (auto simp: session_def dest!: in_fst_and_then dest: call_in_sites)
  then show ?thesis
    by (auto dest!: upload_args step_bootstrap step_login_button step_email_login
        step_create_project step_timeline step_export_step step_poll_step)
qed

lemma plain_basic [simp]:
  "plain skip" "plain throw" "plain (console_error m)" "plain (console_warn m)" "plain (console_log m)"
  "plain (pause ms)" "plain (call env s args)"
  by (simp_all add: plain_def)

lemma plain_and_then [simp]: "plain a \<Longrightarrow> plain b \<Longrightarrow> plain (and_then a b)"
  by (auto simp: plain_def snd_and_then)

lemma plain_if [simp]: "plain a \<Longrightarrow> plain b \<Longrightarrow> plain (if c then a else b)"
  by simp

lemma plain_block_map: "(\<And>i. i \<in> set xs \<Longrightarrow> plain (f i)) \<Longrightarrow> plain (block (map f xs))"
  by (induction xs) auto

lemma try_warn_Next: "plain a \<Longrightarrow> snd h = Next \<Longrightarrow> snd (try_catch a h) = Next"
  by (auto simp: plain_def snd_try_catch)

lemma plain_Next: "snd a = Next \<Longrightarrow> plain a"
  by (simp add: plain_def)

lemma flow_login_button [simp]: "snd (login_button env) = Next"
  by (simp add: login_button_def try_warn_Next)

lemma flow_email_login [simp]: "snd (email_login env) = Next"
  by (simp add: email_login_def try_warn_Next)

lemma flow_create_project [simp]: "snd (create_project env) = Next"
  by (simp add: create_project_def try_warn_Next)

lemma flow_export_step [simp]: "snd (export_step env) = Next"
  by (simp add: export_step_def try_warn_Next)

lemma plain_write_output [simp]: "plain (write_output env v)"
  by (cases v) simp_all

lemma flow_poll_step [simp]: "snd (poll_step env out) = Next"
  by (simp add: poll_step_def try_warn_Next)

lemma flow_add_caption [simp]: "snd (add_caption env obj i) = Next"
  by (simp add: add_caption_def try_warn_Next split: option.splits)

lemma snd_block_map_Next: "(\<And>i. i \<in> set xs \<Longrightarrow> snd (f i) = Next) \<Longrightarrow> snd (block (map f xs)) = Next"
  by (induction xs) (auto simp: snd_and_then)

lemma plain_caption_loop [simp]: "plain (caption_loop env obj)"
  by (auto simp: caption_loop_def split: option.splits intro!: plain_Next snd_block_map_Next)

lemma flow_captions [simp]: "snd (captions env st) = Next"
  by (simp add: captions_def try_warn_Next split: option.splits)

lemma flow_click_thumb [simp]: "snd (click_thumb env i) = Next"
  by (simp add: click_thumb_def try_warn_Next)

lemma plain_thumbs [simp]: "plain (block (map (click_thumb env) xs))"
  by (rule plain_Next, rule snd_block_map_Next) simp

lemma plain_captions [simp]: "plain (captions env st)"
  by (rule plain_Next) simp

lemma flow_timeline [simp]: "snd (timeline env st) = Next"
  by (simp add: timeline_def try_warn_Next)

lemma plain_bootstrap [simp]: "plain (bootstrap env)"
  by (simp add: bootstrap_def)

lemma plain_prepare [simp]: "plain (prepare env)"
  by (simp add: prepare_def)

lemma flow_download_one: "snd (download_one env i url) \<in> {Next, Throw, Exit 1}"
  by (simp add: download_one_def snd_and_then)

lemma flow_download_loop: "snd (fst (download_loop env a i files)) \<in> {Next, Throw, Exit 1}"
proof (induction env a i files rule: download_loop.induct)
  case (1 env a i files)
  show ?case
  proof (cases "\<exists>len n url. get_length a = Some len \<and> to_number env len = Some n \<and> num_less i n
      \<and> get_index a i = Some (JStr url)")
    case False
    then show ?thesis
      by (subst download_loop.simps) (auto split: option.splits jsval.splits if_splits)
  next
    case True
    then obtain len n url where h: "get_length a = Some len" "to_number env len = Some n" "num_less i n"
      "get_index a i = Some (JStr url)" by blast
    show ?thesis
    proof (cases "snd (download_one env i url) = Next")
      case False
      with flow_download_one [of env i url] show ?thesis
        by (simp add: download_loop_step [OF h])
    next
      case True
      from "1.IH" [OF h(1) h(2) _ h(4) _ True] h(3) True show ?thesis
        by (simp add: download_loop_step [OF h] snd_and_then)
    qed
  qed
qed

text \<open>The upload step when no file input is found, before or after the fallback.\<close>

lemma upload_step_fatal:
  assumes "matches env FileInputQuery1 = 0" "matches env FileInputQuery2 = 0"
  shows "snd (upload_step env files) = (if returns env Close then Exit 1 else Throw)"
    and "\<exists>pre. fst (upload_step env files) = pre @ [ConsoleError ''Upload step failed:'', Call Close []]"
    and "UploadFile \<notin> sites (upload_step env files)"
proof -
  let ?body = "block [
          call env FileInputQuery1 [],
          if matches env FileInputQuery1 = 0
          then block [
            call env UploadQuery [],
            if 0 < matches env UploadQuery
            then block [call env UploadClick [], pause 800]
            else skip]
          else skip,
          call env FileInputQuery2 [],
          if matches env FileInputQuery2 = 0 then throw else skip,
          call env UploadFile (map JStr files),
          console_log ''Uploaded local files to CapCut UI.'']"
  let ?handler = "block [console_error ''Upload step failed:'', call env Close [], exit 1]"
  have b: "snd ?body = Throw" using assms by (simp add: snd_and_then)
  have nb: "UploadFile \<notin> sites ?body" using assms by (simp add: sites_and_then)
  have hf: "fst ?handler = [ConsoleError ''Upload step failed:'', Call Close []]"
    by (simp add: fst_and_then)
  have hs: "snd ?handler = (if returns env Close then Exit 1 else Throw)"
    by (simp add: snd_and_then)
  have hn: "UploadFile \<notin> sites ?handler" by (simp add: sites_and_then)
  show "snd (upload_step env files) = (if returns env Close then Exit 1 else Throw)"
    unfolding upload_step_def by (simp only: snd_try_catch b hs) simp
  show "\<exists>pre. fst (upload_step env files) = pre @ [ConsoleError ''Upload step failed:'', Call Close []]"
    unfolding upload_step_def by (simp only: fst_try_catch b hf) simp
  show "UploadFile \<notin> sites (upload_step env files)"
    unfolding upload_step_def using nb hn by (simp only: sites_try_catch b) simp
qed

lemma and_then_stop: "snd a \<noteq> Next \<Longrightarrow> and_then a b = a"
  by (simp add: and_then_def)

lemma session_stop_at_upload:
  "snd (upload_step env files) \<noteq> Next \<Longrightarrow>
   session env st out files =
     and_then (bootstrap env) (and_then (login_button env) (and_then (email_login env)
       (and_then (create_project env) (upload_step env files))))"
  by (simp add: session_def and_then_stop)

lemma step_download_loop: "x \<in> sites (fst (download_loop env a i files)) \<Longrightarrow> step_of x = 0"
  by (auto dest!: sites_download_loop)


lemma and_then_Next: "snd a = Next \<Longrightarrow> and_then a b = (fst a @ fst b, snd b)"
  by (simp add: and_then_def)

lemma session_at_poll:
  assumes "snd (bootstrap env) = Next" "snd (upload_step env files) = Next"
  shows "session env st out files =
     (fst (bootstrap env) @ fst (login_button env) @ fst (email_login env) @ fst (create_project env)
        @ fst (upload_step env files) @ fst (timeline env st) @ fst (export_step env)
        @ fst (poll_step env out) @ [Call Close []],
      if returns env Close then Exit 0 else Throw)"
  using assms by (simp add: session_def and_then_Next fst_and_then snd_and_then)

lemma session_reaches_poll:
  assumes "DownloadWait \<in> sites (session env st out files)"
  shows "snd (bootstrap env) = Next \<and> snd (upload_step env files) = Next"
proof -
  let ?r1 = "block [login_button env, email_login env, create_project env, upload_step env files,
    timeline env st, export_step env, poll_step env out, call env Close [], exit 0]"
  let ?r2 = "block [timeline env st, export_step env, poll_step env out, call env Close [], exit 0]"
  from assms have i1: "DownloadWait \<in> sites (and_then (bootstrap env) ?r1)" by (simp add: session_def)
  have "DownloadWait \<notin> sites (bootstrap env)" by (auto dest!: step_bootstrap)
  from reach [OF i1 this] have b: "snd (bootstrap env) = Next" and i2: "DownloadWait \<in> sites ?r1" by auto
  from i2 have "DownloadWait \<in> sites (login_button env) \<or> DownloadWait \<in> sites (email_login env)
      \<or> DownloadWait \<in> sites (create_project env) \<or> DownloadWait \<in> sites (and_then (upload_step env files) ?r2)"
    by (auto dest!: in_sites_and_then)
  then have i3: "DownloadWait \<in> sites (and_then (upload_step env files) ?r2)"
    by (auto dest!: step_login_button step_email_login step_create_project)
  have "DownloadWait \<notin> sites (upload_step env files)" by (auto dest!: step_upload_step)
  from reach [OF i3 this] b show ?thesis by simp
qed

lemma poll_step_timeout:
  assumes "\<not> returns env DownloadWait"
  shows "poll_step env out =
    ([Call DownloadWait [], ConsoleWarn ''Export/download polling failed (timeout or selector mismatch).''], Next)"
proof -
  have "and_then (call env DownloadWait []) b = ([Call DownloadWait []], Throw)" for b
    using assms by (simp add: and_then_def call_def)
  then show ?thesis
    by (simp add: poll_step_def try_catch_def and_then_def console_warn_def)
qed


lemma write_output_event:
  "e \<in> set (fst (write_output env v)) \<Longrightarrow>
     \<exists>name. v = JStr name \<and> e = Call WriteExport [JStr (path_join ''/tmp'' name), JStr (fetch_body env FetchExport)]"
  by (cases v) auto

lemma poll_write_event:
  "Call WriteExport args \<in> set (fst (poll_step env out)) \<Longrightarrow>
     \<exists>name. out = JStr name \<and> args = [JStr (path_join ''/tmp'' name), JStr (fetch_body env FetchExport)]"
  by (auto simp: poll_step_def dest!: in_fst_try_catch in_fst_and_then write_output_event split: if_splits)

lemma session_write_event:
  assumes "Call WriteExport args \<in> set (fst (session env st out files))"
  shows "\<exists>name. out = JStr name \<and> args = [JStr (path_join ''/tmp'' name), JStr (fetch_body env FetchExport)]"
proof -
  from assms have "Call WriteExport args \<in> set (fst (poll_step env out))
      \<or> WriteExport \<in> sites (bootstrap env) \<or> WriteExport \<in> sites (login_button env)
      \<or> WriteExport \<in> sites (email_login env) \<or> WriteExport \<in> sites (create_project env)
      \<or> WriteExport \<in> sites (upload_step env files)
      \<or> WriteExport \<in> sites (timeline env st) \<or> WriteExport \<in> sites (export_step env)"
    by (auto simp: session_def dest!: in_fst_and_then dest: call_in_sites)
  then show ?thesis
    by (auto dest!: poll_write_event step_bootstrap step_login_button step_email_login
        step_create_project step_upload_step step_timeline step_export_step)
qed


lemma count_basic [simp]:
  "count_calls P skip = 0" "count_calls P throw = 0" "count_calls P (exit n) = 0"
  "count_calls P (console_error m) = 0" "count_calls P (console_warn m) = 0"
  "count_calls P (console_log m) = 0" "count_calls P (pause ms) = 0"
  "count_calls P (call env s args) = (if P s then 1 else 0)"
  by (simp_all add: count_calls_def)

lemma count_and_then:
  "count_calls P (and_then a b) = (if snd a = Next then count_calls P a + count_calls P b else count_calls P a)"
  by (simp add: count_calls_def fst_and_then)

lemma count_try_catch:
  "count_calls P (try_catch a h) = (if snd a = Throw then count_calls P a + count_calls P h else count_calls P a)"
  by (simp add: count_calls_def fst_try_catch)

lemma count_zero: "(\<And>x. x \<in> sites a \<Longrightarrow> \<not> P x) \<Longrightarrow> count_calls P a = 0"
  by (auto simp: count_calls_def sites_def filter_empty_conv)

lemma count_block_map_le:
  "(\<And>i. i \<in> set xs \<Longrightarrow> count_calls P (f i) \<le> 1) \<Longrightarrow> count_calls P (block (map f xs)) \<le> length xs"
proof (induction xs)
  case Nil
  then show ?case by simp
next
  case (Cons x xs)
  from Cons.prems have "count_calls P (f x) \<le> 1" by simp
  moreover from Cons have "count_calls P (block (map f xs)) \<le> length xs" by simp
  ultimately show ?case by (simp add: count_and_then)
qed

lemma caption_only_step: "caption_only P \<Longrightarrow> P x \<Longrightarrow> step_of x = 5"
  by (auto simp: caption_only_def)

lemma count_add_caption_click: "count_calls is_add_text_click (add_caption env obj i) \<le> 1"
  by (simp add: add_caption_def count_try_catch count_and_then split: option.splits)

lemma count_add_caption_type: "count_calls is_keyboard_type (add_caption env obj i) \<le> 1"
  by (simp add: add_caption_def count_try_catch count_and_then split: option.splits)

lemma caption_indices_le: "length (caption_indices (Dec (int n) 0)) \<le> min 6 n"
proof -
  let ?xs = "takeWhile (\<lambda>i. i < n) [0..<6]"
  have "length ?xs \<le> 6" using length_takeWhile_le [of "\<lambda>i. i < n" "[0..<6]"] by simp
  moreover have "distinct ?xs" by (rule distinct_takeWhile) simp
  then have "length ?xs = card (set ?xs)" by (simp add: distinct_card)
  moreover have "set ?xs \<subseteq> {..<n}" by (auto dest: set_takeWhileD)
  then have "card (set ?xs) \<le> n" by (metis card_lessThan card_mono finite_lessThan)
  ultimately show ?thesis by (simp add: caption_indices_def)
qed

lemma count_caption_loop:
  assumes "\<And>i. count_calls P (add_caption env (JArr entries) i) \<le> 1"
  shows "count_calls P (caption_loop env (JArr entries)) \<le> min 6 (length entries)"
proof -
  have "count_calls P (block (map (add_caption env (JArr entries)) (caption_indices (Dec (int (length entries)) 0))))
      \<le> length (caption_indices (Dec (int (length entries)) 0))"
    by (rule count_block_map_le) (rule assms)
  with caption_indices_le [of "length entries"] show ?thesis
    by (simp add: caption_loop_def)
qed

lemma count_captions:
  assumes "caption_only P" "\<And>i. count_calls P (add_caption env (JArr entries) i) \<le> 1"
  shows "count_calls P (captions env (JArr entries)) \<le> min 6 (length entries)"
proof -
  from assms(1) have z: "\<not> P TextQuery" "\<not> P TextClick" "\<not> P AddTextQuery"
    by (auto simp: caption_only_def)
  from count_caption_loop [OF assms(2)] z show ?thesis
    by (simp add: captions_def count_try_catch count_and_then)
qed

lemma count_timeline:
  assumes "caption_only P" "\<And>i. count_calls P (add_caption env (JArr entries) i) \<le> 1"
  shows "count_calls P (timeline env (JArr entries)) \<le> min 6 (length entries)"
proof -
  from assms(1) have z: "\<not> P ThumbsWait" "\<not> P ThumbsQuery"
    by (auto simp: caption_only_def)
  have t: "count_calls P (block (map (click_thumb env) xs)) = 0" for xs
  proof (rule count_zero)
    fix x assume "x \<in> sites (block (map (click_thumb env) xs))"
    then obtain i where "x \<in> sites (click_thumb env i)" by (auto dest!: in_sites_block_map)
    then have "x = ThumbClick i"
      by (auto simp: click_thumb_def dest!: in_sites_try_catch in_sites_and_then)
    with assms(1) show "\<not> P x" by (auto simp: caption_only_def)
  qed
  from count_captions [OF assms] z t show ?thesis
    by (simp add: timeline_def count_try_catch count_and_then)
qed

lemma count_session:
  assumes "caption_only P" "\<And>i. count_calls P (add_caption env (JArr entries) i) \<le> 1"
  shows "count_calls P (session env (JArr entries) out files) \<le> min 6 (length entries)"
proof -
  note s = caption_only_step [OF assms(1)]
  have z: "count_calls P (bootstrap env) = 0" "count_calls P (login_button env) = 0"
    "count_calls P (email_login env) = 0" "count_calls P (create_project env) = 0"
    "count_calls P (upload_step env files) = 0" "count_calls P (export_step env) = 0"
    "count_calls P (poll_step env out) = 0"
    using assms(1)
    by (auto intro!: count_zero simp: caption_only_def dest!: step_bootstrap step_login_button step_email_login
        step_create_project step_upload_step step_export_step step_poll_step)
  from assms(1) have c: "\<not> P Close" by (auto simp: caption_only_def)
  from count_timeline [OF assms] z c show ?thesis
    by (simp add: session_def count_and_then)
qed

lemma count_run:
  assumes "caption_only P" "\<And>i. count_calls P (add_caption env (JArr entries) i) \<le> 1"
  shows "count_calls P (run env (JObj ((''scriptText'', JArr entries) # fs))) \<le> min 6 (length entries)"
proof (cases env "JObj ((''scriptText'', JArr entries) # fs)" rule: run_cases)
  case 1
  then show ?thesis by (simp add: count_calls_def)
next
  case (2 a st out)
  from 2(4) have st: "st = JArr entries" by simp
  have z: "count_calls P (prepare env) = 0" "count_calls P (fst (download_loop env a 0 [])) = 0"
    using assms(1)
    by (auto intro!: count_zero simp: caption_only_def dest!: sites_prepare step_download_loop)
  from count_session [OF assms] z show ?thesis
    by (simp add: 2(6) st staged_eq count_and_then)
qed

lemma JSON_parse_Nil: "JSON_parse [] = None"
  by (simp add: JSON_parse_def)

lemma captions_unparsable:
  assumes "script_obj st = None"
  shows "fst (captions env st) = (if \<not> returns env TextQuery then [Call TextQuery []]
            else if 0 < matches env TextQuery
              then (if returns env TextClick then [Call TextQuery [], Call TextClick [], Pause 600]
                    else [Call TextQuery [], Call TextClick []])
            else [Call TextQuery []])
          @ [ConsoleWarn ''Caption insertion partially failed. You may need to update selectors.'']"
  using assms by (simp add: captions_def fst_try_catch fst_and_then snd_and_then)


text \<open>The script from its first line is the run on the payload of the event file.\<close>

lemma main_run:
  assumes "GITHUB_EVENT_PATH env = Some eventPath" "eventPath \<noteq> []"
    "JSON_parse (event_file env) = Some ev" "get_prop ev ''client_payload'' = Some p"
  shows "main env = and_then (call env ReadEvent [JStr eventPath]) (run env (js_or p (JObj [])))"
  using assms by (simp add: main_def)

lemma main_env_ok:
  "main env_ok = and_then (call env_ok ReadEvent [JStr ''/home/runner/work/_temp/_github_workflow/event.json''])
     (run env_ok (JObj [(''outputName'', JStr ''out.mp4''), (''assetUrls'', JArr [JStr ''http://x/a.mp4''])]))"
proof -
  have "JSON_parse (event_file env_ok) = Some (JObj [(''client_payload'',
      JObj [(''outputName'', JStr ''out.mp4''), (''assetUrls'', JArr [JStr ''http://x/a.mp4''])])])"
    by (simp add: eval)
  then show ?thesis
    by (simp add: main_def js_or_def env_ok_def)
qed

section \<open>C1: a payload without asset URLs\<close>

text \<open>
  C1, as amended. The check of line 35 is \<^verbatim>\<open>!payload.assetUrls\<close>. When the field is
  missing, or holds \<^verbatim>\<open>null\<close>, \<^verbatim>\<open>false\<close>, \<^verbatim>\<open>0\<close> or the empty string, the script logs the
  error and exits with status 1, and that is all it does: no fetch and no browser. An
  empty list is truthy and passes the check: once the staging directory is there, nothing
  is fetched and the browser is launched.
\<close>

theorem C1_missing_assetUrls:
  "(\<not> truthy payload \<or> (\<exists>a. get_prop payload ''assetUrls'' = Some a \<and> \<not> truthy a)
      \<longrightarrow> run env payload = ([ConsoleError ''Payload missing required fields. Example: assetUrls[]''], Exit 1))
   \<and> (truthy payload \<and> get_prop payload ''assetUrls'' = Some (JArr []) \<and> (tmp_dir_exists env \<or> returns env Mkdir)
      \<longrightarrow> Launch \<in> sites (run env payload) \<and> (\<forall>i. FetchAsset i \<notin> sites (run env payload)))"
proof (intro conjI impI)
  assume "\<not> truthy payload \<or> (\<exists>a. get_prop payload ''assetUrls'' = Some a \<and> \<not> truthy a)"
  then show "run env payload = ([ConsoleError ''Payload missing required fields. Example: assetUrls[]''], Exit 1)"
    by (auto simp: run_def and_then_def console_error_def exit_def skip_def)
next
  assume h: "truthy payload \<and> get_prop payload ''assetUrls'' = Some (JArr []) \<and> (tmp_dir_exists env \<or> returns env Mkdir)"
  from h truthy_get_prop obtain st where st: "get_prop payload ''scriptText'' = Some st" by blast
  from h truthy_get_prop obtain out where out: "get_prop payload ''outputName'' = Some out" by blast
  from h st out have r: "run env payload = staged env (JArr []) st (output_name env out)"
    by (simp add: run_def)
  have l: "Launch \<in> sites (session env st (output_name env out) [])"
    by (simp add: session_def bootstrap_def sites_and_then)
  from h l show "Launch \<in> sites (run env payload)"
    by (auto simp: r staged_eq download_loop_empty sites_and_then snd_prepare)
  have "FetchAsset i \<notin> sites (session env st (output_name env out) [])" for i
    by (auto simp: session_def dest!: in_sites_and_then step_bootstrap step_login_button step_email_login
        step_create_project step_upload_step step_timeline step_export_step step_poll_step)
  then show "\<forall>i. FetchAsset i \<notin> sites (run env payload)"
    by (auto simp: r staged_eq download_loop_empty dest!: in_sites_and_then sites_prepare)
qed

text \<open>The claim as stated fails on the empty list: the run launches the browser and
  ends with status 0.\<close>

theorem C1_empty_list_counterexample:
  "snd (run env_ok (JObj [(''assetUrls'', JArr [])])) = Exit 0
   \<and> Launch \<in> sites (run env_ok (JObj [(''assetUrls'', JArr [])]))"
  by (simp add: eval)

theorem C1_witness:
  "run env_ok (JObj [(''projectName'', JStr ''TV-20251021-001'')])
     = ([ConsoleError ''Payload missing required fields. Example: assetUrls[]''], Exit 1)
   \<and> run env_ok (JObj [(''assetUrls'', JNull)])
     = ([ConsoleError ''Payload missing required fields. Example: assetUrls[]''], Exit 1)
   \<and> Launch \<in> sites (run env_ok (JObj [(''assetUrls'', JArr [])]))"
  using C1_missing_assetUrls [of "JObj [(''projectName'', JStr ''TV-20251021-001'')]" env_ok]
    C1_missing_assetUrls [of "JObj [(''assetUrls'', JNull)]" env_ok]
    C1_missing_assetUrls [of "JObj [(''assetUrls'', JArr [])]" env_ok]
  by (simp add: env_ok_def)

section \<open>C2: a script given as plain text\<close>

text \<open>
  C2 does not hold of the code. A \<^verbatim>\<open>scriptText\<close> string that is not JSON makes \<^verbatim>\<open>JSON.parse\<close> (line 186)
  throw; the catch of line 205 logs the warning and the caption step is over. The text
  panel may have been opened, but the \<^verbatim>\<open>Add text\<close> button is never looked for, and no run
  on such a payload clicks it or types a caption. The header of the source announces a
  plain text block as a valid \<^verbatim>\<open>scriptText\<close>; the same text wrapped in a list is typed.
\<close>

theorem C2_plain_text_script_is_not_captioned:
  assumes "JSON_parse s = None" and "s \<noteq> []"
  shows "sites (captions env (JStr s)) \<subseteq> {TextQuery, TextClick}
    \<and> last (fst (captions env (JStr s)))
        = ConsoleWarn ''Caption insertion partially failed. You may need to update selectors.''
    \<and> count_calls is_add_text_click (run env (JObj ((''scriptText'', JStr s) # fs))) = 0
    \<and> count_calls is_keyboard_type (run env (JObj ((''scriptText'', JStr s) # fs))) = 0"
proof -
  from assms have so: "script_obj (JStr s) = None" by simp
  note f = captions_unparsable [OF so, of env]
  have a: "sites (captions env (JStr s)) \<subseteq> {TextQuery, TextClick}"
    by (simp add: sites_def f)
  have b: "last (fst (captions env (JStr s)))
        = ConsoleWarn ''Caption insertion partially failed. You may need to update selectors.''"
    by (simp only: f last_snoc)
  have z: "count_calls P (run env (JObj ((''scriptText'', JStr s) # fs))) = 0" if "caption_only P" for P
  proof (rule count_zero)
    fix x assume x: "x \<in> sites (run env (JObj ((''scriptText'', JStr s) # fs)))"
    show "\<not> P x"
    proof (cases env "JObj ((''scriptText'', JStr s) # fs)" rule: run_cases)
      case 1
      with x show ?thesis by (simp add: sites_def)
    next
      case (2 u st out)
      from 2(4) have st: "st = JStr s" by simp
      from x have "x \<in> sites (prepare env) \<or> x \<in> sites (fst (download_loop env u 0 []))
          \<or> x \<in> sites (bootstrap env) \<or> x \<in> sites (login_button env) \<or> x \<in> sites (email_login env)
          \<or> x \<in> sites (create_project env) \<or> x \<in> sites (upload_step env (snd (download_loop env u 0 [])))
          \<or> x \<in> sites (timeline env (JStr s)) \<or> x \<in> sites (export_step env)
          \<or> x \<in> sites (poll_step env (output_name env out)) \<or> x = Close"
        by (auto simp: 2(6) st staged_eq session_def dest!: in_sites_and_then)
      moreover have "x \<in> sites (timeline env (JStr s)) \<Longrightarrow>
          x = ThumbsWait \<or> x = ThumbsQuery \<or> (\<exists>i. x = ThumbClick i) \<or> x = TextQuery \<or> x = TextClick"
        using a
        by (auto simp: timeline_def click_thumb_def
            dest!: in_sites_try_catch in_sites_and_then in_sites_block_map split: if_splits)
      ultimately show ?thesis
        using that
        by (auto simp: caption_only_def dest!: sites_prepare step_download_loop step_bootstrap
            step_login_button step_email_login step_create_project step_upload_step step_export_step
            step_poll_step)
    qed
  qed
  have "caption_only is_add_text_click"
    unfolding caption_only_def by (intro allI impI) (erule is_add_text_click.elims, simp_all)
  note c = z [OF this]
  have "caption_only is_keyboard_type"
    unfolding caption_only_def by (intro allI impI) (erule is_keyboard_type.elims, simp_all)
  note d = z [OF this]
  from a b c d show ?thesis by blast
qed

theorem C2_witness:
  "JSON_parse ''Hello world'' = None
   \<and> count_calls is_keyboard_type (run env_ok plain_text_script) = 0
   \<and> count_calls is_add_text_click (run env_ok plain_text_script) = 0
   \<and> ConsoleWarn ''Caption insertion partially failed. You may need to update selectors.''
        \<in> set (fst (run env_ok plain_text_script))
   \<and> snd (run env_ok plain_text_script) = Exit 0
   \<and> Call (KeyboardType 0) [JStr ''Hello world''] \<in> set (fst (run env_ok listed_script))"
proof -
  have p: "JSON_parse ''Hello world'' = None" by (simp add: eval)
  have n: "''Hello world'' \<noteq> []" by simp
  note c = C2_plain_text_script_is_not_captioned [OF p n, of env_ok "[(''assetUrls'', JArr [JStr ''http://x/a.mp4''])]"]
  from c have k: "count_calls is_keyboard_type (run env_ok plain_text_script) = 0"
    and a: "count_calls is_add_text_click (run env_ok plain_text_script) = 0"
    by (simp_all only: plain_text_script_def)
  have w: "ConsoleWarn ''Caption insertion partially failed. You may need to update selectors.''
        \<in> set (fst (run env_ok plain_text_script))"
    by (simp add: eval plain_text_script_def)
  have e: "snd (run env_ok plain_text_script) = Exit 0"
    by (simp add: eval plain_text_script_def)
  have l: "Call (KeyboardType 0) [JStr ''Hello world''] \<in> set (fst (run env_ok listed_script))"
    by (simp add: eval listed_script_def)
  from p k a w e l show ?thesis by blast
qed

section \<open>C3: where the artifact is written\<close>

text \<open>
  C3, as amended. Whenever a run writes the artifact, the name is \<^verbatim>\<open>payload.outputName\<close>
  when that is truthy and \<^verbatim>\<open>capcut_export_<Date.now()>.mp4\<close> otherwise, the name is a string,
  and the file written is \<^verbatim>\<open>path.join('/tmp', name)\<close>, with the body of the fetched export.
  That path is \<^verbatim>\<open>/tmp\<close> or begins with \<^verbatim>\<open>/tmp/\<close> whenever no segment of the name is \<^verbatim>\<open>..\<close>; for
  the default name it is \<^verbatim>\<open>/tmp/capcut_export_<Date.now()>.mp4\<close>. Nothing is said of a name with
  a \<^verbatim>\<open>..\<close> segment: \<^verbatim>\<open>path.join\<close> resolves it, and the script does not check the result.
\<close>

theorem C3_output_path:
  assumes "Call WriteExport args \<in> set (fst (run env payload))"
    and "get_prop payload ''outputName'' = Some outputName"
  shows "\<exists>name.
      (if truthy outputName then outputName
       else JStr (''capcut_export_'' @ show_nat (date_now env) @ ''.mp4'')) = JStr name
    \<and> args = [JStr (path_join ''/tmp'' name), JStr (fetch_body env FetchExport)]
    \<and> (''..'' \<notin> set (split_on CHR ''/'' name) \<longrightarrow>
          path_join ''/tmp'' name = ''/tmp'' \<or> take 5 (path_join ''/tmp'' name) = ''/tmp/'')
    \<and> (\<not> truthy outputName \<longrightarrow>
          path_join ''/tmp'' name = ''/tmp/capcut_export_'' @ show_nat (date_now env) @ ''.mp4'')"
proof (cases env payload rule: run_cases)
  case 1
  with assms(1) show ?thesis by simp
next
  case (2 a st out)
  from 2(5) assms(2) have out: "out = outputName" by simp
  let ?P = "prepare env"
  let ?D = "fst (download_loop env a 0 [])"
  let ?S = "session env st (output_name env outputName) (snd (download_loop env a 0 []))"
  from assms(1) have "Call WriteExport args \<in> set (fst (and_then ?P (and_then ?D ?S)))"
    by (simp add: 2(6) staged_eq out)
  then have "WriteExport \<in> sites ?P \<or> WriteExport \<in> sites ?D \<or> Call WriteExport args \<in> set (fst ?S)"
    by (auto dest!: in_fst_and_then dest: call_in_sites)
  then have "Call WriteExport args \<in> set (fst ?S)"
    by (auto dest!: sites_prepare step_download_loop)
  from session_write_event [OF this] obtain name where
    n: "output_name env outputName = JStr name"
      "args = [JStr (path_join ''/tmp'' name), JStr (fetch_body env FetchExport)]" by blast
  from n(1) have n1: "(if truthy outputName then outputName
       else JStr (''capcut_export_'' @ show_nat (date_now env) @ ''.mp4'')) = JStr name"
    unfolding output_name_def js_or_def .
  have n3: "''..'' \<notin> set (split_on CHR ''/'' name) \<longrightarrow>
          path_join ''/tmp'' name = ''/tmp'' \<or> take 5 (path_join ''/tmp'' name) = ''/tmp/''"
    by (auto dest: path_join_tmp_plain)
  have n4: "\<not> truthy outputName \<longrightarrow>
          path_join ''/tmp'' name = ''/tmp/capcut_export_'' @ show_nat (date_now env) @ ''.mp4''"
  proof
    assume "\<not> truthy outputName"
    with n1 have "name = ''capcut_export_'' @ show_nat (date_now env) @ ''.mp4''" by simp
    then show "path_join ''/tmp'' name = ''/tmp/capcut_export_'' @ show_nat (date_now env) @ ''.mp4''"
      by (simp only: path_join_default_name)
  qed
  from n1 n(2) n3 n4 show ?thesis by blast
qed

text \<open>The claim as stated fails for a name that climbs: \<^verbatim>\<open>../var/out.mp4\<close> is written to
  \<^verbatim>\<open>/var/out.mp4\<close>.\<close>

theorem C3_escaping_name_counterexample:
  "get_prop escaping_name ''outputName'' = Some (JStr ''../var/out.mp4'')
   \<and> Call WriteExport [JStr ''/var/out.mp4'', JStr ''video''] \<in> set (fst (run env_ok escaping_name))
   \<and> take 5 ''/var/out.mp4'' \<noteq> ''/tmp/''"
  by (simp add: eval escaping_name_def)

theorem C3_witness:
  "Call WriteExport [JStr ''/tmp/out.mp4'', JStr ''video''] \<in> set (fst (run env_ok spec_payload))
   \<and> get_prop spec_payload ''outputName'' = Some (JStr ''out.mp4'')
   \<and> path_join ''/tmp'' ''out.mp4'' = ''/tmp/out.mp4''"
proof -
  have h1: "Call WriteExport [JStr ''/tmp/out.mp4'', JStr ''video''] \<in> set (fst (run env_ok spec_payload))"
    by (simp add: eval spec_payload_def)
  have h2: "get_prop spec_payload ''outputName'' = Some (JStr ''out.mp4'')"
    by (simp add: spec_payload_def)
  from C3_output_path [OF h1 h2] have "path_join ''/tmp'' ''out.mp4'' = ''/tmp/out.mp4''" by simp
  with h1 h2 show ?thesis by blast
qed

section \<open>C4: a script given as a JSON string\<close>

text \<open>
  C4. When \<^verbatim>\<open>scriptText\<close> is a string that \<^verbatim>\<open>JSON.parse\<close> reads as the list \<open>entries\<close>, the
  run is the run of the same payload with \<^verbatim>\<open>scriptText\<close> being that list: the same trace
  and the same status. And for every list: a run clicks \<^verbatim>\<open>Add text\<close> at most
  \<open>min 6 (length entries)\<close> times and types at most that many captions.
\<close>

theorem C4_script_string_round_trip:
  assumes "JSON_parse s = Some (JArr entries)"
  shows "run env (JObj ((''scriptText'', JStr s) # fs)) = run env (JObj ((''scriptText'', JArr entries) # fs))
    \<and> count_calls is_add_text_click (run env (JObj ((''scriptText'', JArr entries) # fs))) \<le> min 6 (length entries)
    \<and> count_calls is_keyboard_type (run env (JObj ((''scriptText'', JArr entries) # fs))) \<le> min 6 (length entries)"
proof -
  from assms have s: "s \<noteq> []" by (auto simp: JSON_parse_Nil)
  with assms have so: "script_obj (JStr s) = script_obj (JArr entries)" by simp
  have c: "captions env (JStr s) = captions env (JArr entries)"
    by (simp only: captions_def so)
  have t: "timeline env (JStr s) = timeline env (JArr entries)"
    using s by (simp add: timeline_def c)
  have "staged env a (JStr s) out = staged env a (JArr entries) out" for a out
    by (simp add: staged_def session_def t)
  then have r: "run env (JObj ((''scriptText'', JStr s) # fs)) = run env (JObj ((''scriptText'', JArr entries) # fs))"
    by (simp add: run_def split: option.splits)
  have "caption_only is_add_text_click"
    unfolding caption_only_def by (intro allI impI) (erule is_add_text_click.elims, simp_all)
  from count_run [OF this count_add_caption_click]
  have a: "count_calls is_add_text_click (run env (JObj ((''scriptText'', JArr entries) # fs))) \<le> min 6 (length entries)" .
  have "caption_only is_keyboard_type"
    unfolding caption_only_def by (intro allI impI) (erule is_keyboard_type.elims, simp_all)
  from count_run [OF this count_add_caption_type]
  have b: "count_calls is_keyboard_type (run env (JObj ((''scriptText'', JArr entries) # fs))) \<le> min 6 (length entries)" .
  from r a b show ?thesis by blast
qed


theorem C4_witness:
  \<open>JSON_parse ''[{"text":"Hook"}]'' = Some (JArr [JObj [(''text'', JStr ''Hook'')]])
   \<and> run env_ok spec_payload
       = run env_ok (JObj [(''scriptText'', JArr [JObj [(''text'', JStr ''Hook'')]]),
           (''assetUrls'', JArr [JStr ''http://x/a.mp4'']), (''outputName'', JStr ''out.mp4'')])
   \<and> count_calls is_keyboard_type (run env_ok spec_payload) = 1
   \<and> count_calls is_add_text_click (run env_ok spec_payload) = 1\<close>
proof -
  have p: \<open>JSON_parse ''[{"text":"Hook"}]'' = Some (JArr [JObj [(''text'', JStr ''Hook'')]])\<close>
    by (simp add: eval)
  have e: \<open>run env_ok spec_payload = run env_ok (JObj [(''scriptText'', JStr ''[{"text":"Hook"}]''),
           (''assetUrls'', JArr [JStr ''http://x/a.mp4'']), (''outputName'', JStr ''out.mp4'')])\<close>
    by (simp add: run_def spec_payload_def)
  note c = C4_script_string_round_trip [OF p, of env_ok
      "[(''assetUrls'', JArr [JStr ''http://x/a.mp4'']), (''outputName'', JStr ''out.mp4'')]"]
  from c e have r: "run env_ok spec_payload
       = run env_ok (JObj [(''scriptText'', JArr [JObj [(''text'', JStr ''Hook'')]]),
           (''assetUrls'', JArr [JStr ''http://x/a.mp4'']), (''outputName'', JStr ''out.mp4'')])"
    by (simp only:)
  have k: "count_calls is_keyboard_type (run env_ok spec_payload) = 1"
    by (simp add: eval count_calls_def spec_payload_def)
  have a: "count_calls is_add_text_click (run env_ok spec_payload) = 1"
    by (simp add: eval count_calls_def spec_payload_def)
  from p r k a show ?thesis by blast
qed

section \<open>C5: an asset that cannot be fetched\<close>

text \<open>
  C5. When the fetch of the asset at index \<open>i\<close> is made and returns a response that is
  not a success, the run ends with status 1 right after logging the failure (the log
  line is the last entry of the trace), no asset after \<open>i\<close> is fetched, and nothing
  beyond the download phase happens: in particular the browser is not launched.
\<close>

theorem C5_failed_fetch_is_fatal:
  assumes "FetchAsset i \<in> sites (run env payload)"
    and "returns env (FetchAsset i)"
    and "\<not> response_ok env (FetchAsset i)"
  shows "snd (run env payload) = Exit 1
    \<and> (\<exists>pre args. fst (run env payload) = pre @ [Call (FetchAsset i) args, ConsoleError ''Failed to download asset''])
    \<and> (\<forall>j. FetchAsset j \<in> sites (run env payload) \<longrightarrow> j \<le> i)
    \<and> Launch \<notin> sites (run env payload)
    \<and> (\<forall>s \<in> sites (run env payload). step_of s = 0)"
proof (cases env payload rule: run_cases)
  case 1
  with assms(1) show ?thesis by (simp add: sites_def)
next
  case (2 a st out)
  let ?dl = "fst (download_loop env a 0 [])"
  let ?se = "session env st (output_name env out) (snd (download_loop env a 0 []))"
  from assms(1) 2(6) have in1: "FetchAsset i \<in> sites (and_then (prepare env) (and_then ?dl ?se))"
    by (simp add: staged_eq)
  have "FetchAsset i \<notin> sites (prepare env)" by (auto dest!: sites_prepare)
  from reach [OF in1 this] have s: "snd (prepare env) = Next" and in2: "FetchAsset i \<in> sites (and_then ?dl ?se)"
    by auto
  have "FetchAsset i \<notin> sites ?se" by (auto dest!: step_session)
  with in2 have in3: "FetchAsset i \<in> sites ?dl" by (auto dest!: in_sites_and_then)
  from download_loop_failed [OF in3 assms(2,3)] obtain pre args where
    d: "snd ?dl = Exit 1" "\<forall>j. FetchAsset j \<in> sites ?dl \<longrightarrow> j \<le> i"
      "fst ?dl = pre @ [Call (FetchAsset i) args, ConsoleError ''Failed to download asset'']" by blast
  from d(1) s have r: "run env payload = (fst (prepare env) @ fst ?dl, Exit 1)"
    by (simp add: 2(6) staged_eq and_then_def)
  from d(1) have stop: "snd ?dl \<noteq> Next" by simp
  have "\<forall>s \<in> sites (run env payload). step_of s = 0"
    using step_staged_stop [OF stop] by (auto simp: 2(6))
  moreover from this have "Launch \<notin> sites (run env payload)" by auto
  moreover have "\<forall>j. FetchAsset j \<in> sites (run env payload) \<longrightarrow> j \<le> i"
    using d(2) by (auto simp: r sites_def dest!: sites_prepare [unfolded sites_def])
  moreover have "fst (run env payload) = (fst (prepare env) @ pre) @ [Call (FetchAsset i) args, ConsoleError ''Failed to download asset'']"
    by (simp add: r d(3))
  ultimately show ?thesis using r by (auto simp del: append_assoc)
qed

theorem C5_witness:
  "FetchAsset 1 \<in> sites (run env_404 three_assets)
   \<and> \<not> response_ok env_404 (FetchAsset 1)
   \<and> snd (run env_404 three_assets) = Exit 1
   \<and> FetchAsset 2 \<notin> sites (run env_404 three_assets)
   \<and> Launch \<notin> sites (run env_404 three_assets)"
proof -
  have h1: "FetchAsset 1 \<in> sites (run env_404 three_assets)"
    by (simp add: eval env_404_def three_assets_def)
  have h2: "returns env_404 (FetchAsset 1)" by (simp add: env_404_def env_ok_def)
  have h3: "\<not> response_ok env_404 (FetchAsset 1)" by (simp add: env_404_def env_ok_def response_ok_def)
  from C5_failed_fetch_is_fatal [OF h1 h2 h3] h1 h3 show ?thesis by auto
qed

section \<open>C6: one local file per asset URL\<close>

text \<open>
  C6. For a payload whose \<^verbatim>\<open>assetUrls\<close> is a list of \<open>N\<close> URL strings that are all saved,
  with the staging directory in place: the loop does, for each index in order, the fetch,
  the read of the body and the write of \<^verbatim>\<open>/tmp/capcut_assets/asset_<index><ext>\<close>, and
  nothing else; \<^verbatim>\<open>localFiles\<close> holds these \<open>N\<close> paths in the order of the URLs, and they are
  pairwise different, so \<open>N\<close> files exist; the rest of the script, from the launch of the
  browser on, runs after the loop with this list, and the one upload call that can occur
  carries exactly this list.
\<close>

theorem C6_one_file_per_url_in_order:
  assumes "get_prop payload ''assetUrls'' = Some (JArr (map JStr urls))"
    and "get_prop payload ''scriptText'' = Some st"
    and "get_prop payload ''outputName'' = Some out"
    and "\<forall>j<length urls. asset_saved env j"
    and "tmp_dir_exists env \<or> returns env Mkdir"
  shows "download_loop env (JArr (map JStr urls)) 0 []
      = ((concat (map (\<lambda>j. saved_trace env j (urls ! j)) [0..<length urls]), Next), local_files urls)
    \<and> length (local_files urls) = length urls
    \<and> distinct (local_files urls)
    \<and> (\<forall>j<length urls. local_files urls ! j
          = ''/tmp/capcut_assets/asset_'' @ show_nat j @ asset_ext (urls ! j))
    \<and> run env payload
        = and_then (fst (prepare env) @ concat (map (\<lambda>j. saved_trace env j (urls ! j)) [0..<length urls]), Next)
            (session env st (output_name env out) (local_files urls))
    \<and> (\<forall>args. Call UploadFile args \<in> set (fst (run env payload)) \<longrightarrow> args = map JStr (local_files urls))"
proof -
  let ?dl = "concat (map (\<lambda>j. saved_trace env j (urls ! j)) [0..<length urls])"
  let ?se = "session env st (output_name env out) (local_files urls)"
  have dl: "download_loop env (JArr (map JStr urls)) 0 [] = ((?dl, Next), local_files urls)"
    using download_loop_all_saved [OF assms(4), of 0 "[]"] by (simp add: local_files_def)
  have t: "truthy payload" using assms(1) by (cases payload) auto
  have r: "run env payload = staged env (JArr (map JStr urls)) st (output_name env out)"
    using assms(1-3) t by (simp add: run_def)
  have p: "snd (prepare env) = Next" using assms(5) by (auto simp: snd_prepare)
  have r2: "run env payload = and_then (fst (prepare env) @ ?dl, Next) ?se"
    using p by (simp add: r staged_eq dl and_then_def)
  have up: "args = map JStr (local_files urls)" if "Call UploadFile args \<in> set (fst (run env payload))" for args
  proof -
    from that have "Call UploadFile args \<in> set (fst (prepare env)) \<or> Call UploadFile args \<in> set ?dl
        \<or> Call UploadFile args \<in> set (fst ?se)"
      by (auto simp: r2 fst_and_then)
    then show ?thesis
    proof (elim disjE)
      assume "Call UploadFile args \<in> set (fst (prepare env))"
      then have False by (auto dest!: call_in_sites sites_prepare)
      then show ?thesis ..
    next
      assume "Call UploadFile args \<in> set ?dl"
      then have False by (auto simp: saved_trace_def)
      then show ?thesis ..
    next
      assume "Call UploadFile args \<in> set (fst ?se)"
      then show ?thesis by (rule session_upload_args)
    qed
  qed
  have "\<forall>j<length urls. local_files urls ! j = ''/tmp/capcut_assets/asset_'' @ show_nat j @ asset_ext (urls ! j)"
    by (simp add: local_files_def asset_filename_eq)
  moreover have "distinct (local_files urls)"
    unfolding local_files_def by (rule distinct_asset_filenames)
  moreover have "length (local_files urls) = length urls" by (simp add: local_files_def)
  ultimately show ?thesis using dl r2 up by blast
qed

theorem C6_witness:
  "asset_saved env_ok 0 \<and> asset_saved env_ok 1 \<and> asset_saved env_ok 2
   \<and> snd (download_loop env_ok (JArr (map JStr [''http://x/a.mp4'', ''http://x/b.png'', ''http://x/c.mp4''])) 0 [])
      = [''/tmp/capcut_assets/asset_0.mp4'', ''/tmp/capcut_assets/asset_1.png'', ''/tmp/capcut_assets/asset_2.mp4'']
   \<and> Call UploadFile [JStr ''/tmp/capcut_assets/asset_0.mp4'', JStr ''/tmp/capcut_assets/asset_1.png'',
        JStr ''/tmp/capcut_assets/asset_2.mp4''] \<in> set (fst (run env_ok three_assets))"
proof -
  have h1: "get_prop three_assets ''assetUrls'' = Some (JArr (map JStr [''http://x/a.mp4'', ''http://x/b.png'', ''http://x/c.mp4'']))"
    and h2: "get_prop three_assets ''scriptText'' = Some JUndefined"
    and h3: "get_prop three_assets ''outputName'' = Some JUndefined"
    by (simp_all add: three_assets_def)
  have h4: "\<forall>j<length [''http://x/a.mp4'', ''http://x/b.png'', ''http://x/c.mp4'']. asset_saved env_ok j"
    by (simp add: asset_saved_def env_ok_def response_ok_def)
  have h5: "tmp_dir_exists env_ok \<or> returns env_ok Mkdir" by (simp add: env_ok_def)
  have h6: "asset_saved env_ok 0 \<and> asset_saved env_ok 1 \<and> asset_saved env_ok 2"
    by (simp add: asset_saved_def env_ok_def response_ok_def)
  have f: "local_files [''http://x/a.mp4'', ''http://x/b.png'', ''http://x/c.mp4'']
      = [''/tmp/capcut_assets/asset_0.mp4'', ''/tmp/capcut_assets/asset_1.png'', ''/tmp/capcut_assets/asset_2.mp4'']"
    by (simp add: local_files_def eval)
  note c = C6_one_file_per_url_in_order [OF h1 h2 h3 h4 h5]
  have s: "snd (download_loop env_ok (JArr (map JStr [''http://x/a.mp4'', ''http://x/b.png'', ''http://x/c.mp4''])) 0 [])
      = [''/tmp/capcut_assets/asset_0.mp4'', ''/tmp/capcut_assets/asset_1.png'', ''/tmp/capcut_assets/asset_2.mp4'']"
    by (simp only: c [THEN conjunct1] snd_conv f)
  have u: "Call UploadFile [JStr ''/tmp/capcut_assets/asset_0.mp4'', JStr ''/tmp/capcut_assets/asset_1.png'',
        JStr ''/tmp/capcut_assets/asset_2.mp4''] \<in> set (fst (run env_ok three_assets))"
    by (simp add: eval three_assets_def)
  from h6 s u show ?thesis by (simp only: simp_thms)
qed

section \<open>C7: no upload control\<close>

text \<open>
  C7. When the page has no file input, neither at the first query nor after the fallback
  click on an upload or import button: the upload step logs the failure and closes the
  browser, and when \<^verbatim>\<open>browser.close()\<close> returns it exits with status 1. In a run, whatever
  came before: no call of the timeline, caption, export or polling steps is ever made, the
  run never ends with status 0, and when the upload step is reached and the browser
  closes, the status is 1.
\<close>

theorem C7_no_file_input_is_fatal:
  assumes "matches env FileInputQuery1 = 0"
    and "matches env FileInputQuery2 = 0"
  shows "(returns env Close \<longrightarrow> snd (upload_step env files) = Exit 1)
    \<and> (\<exists>pre. fst (upload_step env files) = pre @ [ConsoleError ''Upload step failed:'', Call Close []])
    \<and> (returns env Close \<and> FileInputQuery1 \<in> sites (run env payload) \<longrightarrow> snd (run env payload) = Exit 1)
    \<and> (\<forall>s \<in> sites (run env payload). step_of s \<le> 4 \<or> s = Close)
    \<and> snd (run env payload) \<noteq> Exit 0"
proof -
  have u: "snd (upload_step env fs) = (if returns env Close then Exit 1 else Throw)" for fs
    by (rule upload_step_fatal(1) [OF assms])
  then have un: "snd (upload_step env fs) \<noteq> Next" for fs by simp
  have rest: "(returns env Close \<and> FileInputQuery1 \<in> sites (run env payload) \<longrightarrow> snd (run env payload) = Exit 1)
    \<and> (\<forall>s \<in> sites (run env payload). step_of s \<le> 4 \<or> s = Close)
    \<and> snd (run env payload) \<noteq> Exit 0"
  proof (cases env payload rule: run_cases)
    case 1
    then show ?thesis by (simp add: sites_def)
  next
    case (2 a st out)
    let ?P = "prepare env"
    let ?D = "fst (download_loop env a 0 [])"
    let ?fs = "snd (download_loop env a 0 [])"
    let ?U = "upload_step env ?fs"
    let ?S = "and_then (bootstrap env) (and_then (login_button env) (and_then (email_login env)
       (and_then (create_project env) ?U)))"
    have r: "run env payload = and_then ?P (and_then ?D ?S)"
      using un [of ?fs] by (simp add: 2(6) staged_eq session_stop_at_upload)
    have a: "\<forall>s \<in> sites (run env payload). step_of s \<le> 4 \<or> s = Close"
      unfolding r
      by (auto dest!: in_sites_and_then sites_prepare step_download_loop step_bootstrap
          step_login_button step_email_login step_create_project step_upload_step)
    have b: "snd (run env payload) \<noteq> Exit 0"
      using flow_download_loop [of env a 0 "[]"] plain_prepare [of env] plain_bootstrap [of env]
      by (auto simp: r snd_and_then u plain_def)
    have c: "snd (run env payload) = Exit 1"
      if "returns env Close" "FileInputQuery1 \<in> sites (run env payload)"
    proof -
      from that(2) have i1: "FileInputQuery1 \<in> sites (and_then ?P (and_then ?D ?S))" by (simp only: r)
      have "FileInputQuery1 \<notin> sites ?P" by (auto dest!: sites_prepare)
      from reach [OF i1 this] have p: "snd ?P = Next" and i2: "FileInputQuery1 \<in> sites (and_then ?D ?S)"
        by auto
      have "FileInputQuery1 \<notin> sites ?D" by (auto dest!: step_download_loop)
      from reach [OF i2 this] have d: "snd ?D = Next" and i3: "FileInputQuery1 \<in> sites ?S"
        by auto
      have "FileInputQuery1 \<notin> sites (bootstrap env)" by (auto dest!: step_bootstrap)
      from reach [OF i3 this] have "snd (bootstrap env) = Next" by simp
      with p d that(1) show ?thesis by (simp add: r snd_and_then u)
    qed
    from a b c show ?thesis by blast
  qed
  from u upload_step_fatal(2) [OF assms] rest show ?thesis by simp
qed

theorem C7_witness:
  "matches env_no_file_input FileInputQuery1 = 0 \<and> matches env_no_file_input FileInputQuery2 = 0
   \<and> FileInputQuery1 \<in> sites (run env_no_file_input three_assets)
   \<and> snd (run env_no_file_input three_assets) = Exit 1
   \<and> ThumbsWait \<notin> sites (run env_no_file_input three_assets)
   \<and> ExportQuery \<notin> sites (run env_no_file_input three_assets)
   \<and> DownloadWait \<notin> sites (run env_no_file_input three_assets)"
proof -
  have h1: "matches env_no_file_input FileInputQuery1 = 0"
    and h2: "matches env_no_file_input FileInputQuery2 = 0"
    and h3: "returns env_no_file_input Close"
    by (simp_all add: env_no_file_input_def env_ok_def)
  have r: "FileInputQuery1 \<in> sites (run env_no_file_input three_assets)"
    by (simp add: eval env_no_file_input_def three_assets_def)
  note c = C7_no_file_input_is_fatal [OF h1 h2, of "[]" three_assets]
  from c r h3 have e: "snd (run env_no_file_input three_assets) = Exit 1" by blast
  from c have s: "\<forall>s \<in> sites (run env_no_file_input three_assets). step_of s \<le> 4 \<or> s = Close" by blast
  from s have "ThumbsWait \<notin> sites (run env_no_file_input three_assets)"
    "ExportQuery \<notin> sites (run env_no_file_input three_assets)"
    "DownloadWait \<notin> sites (run env_no_file_input three_assets)" by fastforce+
  with h1 h2 r e show ?thesis by blast
qed

section \<open>C8: the completion indicator never appears\<close>

text \<open>
  C8. When the wait for the completion indicator (line 233, 120 s) times out: the polling
  step is the wait and the warning and nothing else; no run writes the output artifact;
  and a run that reaches the wait ends with the wait, the warning and the closing of the
  browser, with status 0 when \<^verbatim>\<open>browser.close()\<close> returns.
\<close>

theorem C8_completion_indicator_never_appears:
  assumes "\<not> returns env DownloadWait"
  shows "poll_step env OUTPUT_NAME
      = ([Call DownloadWait [], ConsoleWarn ''Export/download polling failed (timeout or selector mismatch).''], Next)
    \<and> WriteExport \<notin> sites (run env payload)
    \<and> (DownloadWait \<in> sites (run env payload) \<longrightarrow>
          (\<exists>pre. fst (run env payload) = pre @ [Call DownloadWait [],
                ConsoleWarn ''Export/download polling failed (timeout or selector mismatch).'', Call Close []])
          \<and> (returns env Close \<longrightarrow> snd (run env payload) = Exit 0))"
proof -
  note po = poll_step_timeout [OF assms]
  have sp: "sites (poll_step env out) = {DownloadWait}" for out
    by (simp add: po sites_def)
  have rest: "WriteExport \<notin> sites (run env payload)
    \<and> (DownloadWait \<in> sites (run env payload) \<longrightarrow>
          (\<exists>pre. fst (run env payload) = pre @ [Call DownloadWait [],
                ConsoleWarn ''Export/download polling failed (timeout or selector mismatch).'', Call Close []])
          \<and> (returns env Close \<longrightarrow> snd (run env payload) = Exit 0))"
  proof (cases env payload rule: run_cases)
    case 1
    then show ?thesis by (simp add: sites_def)
  next
    case (2 a st out)
    let ?P = "prepare env"
    let ?D = "fst (download_loop env a 0 [])"
    let ?fs = "snd (download_loop env a 0 [])"
    let ?S = "session env st (output_name env out) ?fs"
    have r: "run env payload = and_then ?P (and_then ?D ?S)"
      by (simp add: 2(6) staged_eq)
    have "WriteExport \<notin> sites ?S"
      using sp by (auto simp: session_def dest!: in_sites_and_then step_bootstrap step_login_button
          step_email_login step_create_project step_upload_step step_timeline step_export_step)
    then have a: "WriteExport \<notin> sites (run env payload)"
      unfolding r by (auto dest!: in_sites_and_then sites_prepare step_download_loop)
    have b: "(\<exists>pre. fst (run env payload) = pre @ [Call DownloadWait [],
                ConsoleWarn ''Export/download polling failed (timeout or selector mismatch).'', Call Close []])
          \<and> (returns env Close \<longrightarrow> snd (run env payload) = Exit 0)"
      if "DownloadWait \<in> sites (run env payload)"
    proof -
      from that have i1: "DownloadWait \<in> sites (and_then ?P (and_then ?D ?S))" by (simp only: r)
      have "DownloadWait \<notin> sites ?P" by (auto dest!: sites_prepare)
      from reach [OF i1 this] have p: "snd ?P = Next" and i2: "DownloadWait \<in> sites (and_then ?D ?S)"
        by auto
      have "DownloadWait \<notin> sites ?D" by (auto dest!: step_download_loop)
      from reach [OF i2 this] have d: "snd ?D = Next" and i3: "DownloadWait \<in> sites ?S"
        by auto
      from session_reaches_poll [OF i3] have "snd (bootstrap env) = Next" "snd (upload_step env ?fs) = Next"
        by auto
      note s = session_at_poll [OF this, of st "output_name env out"]
      have e: "run env payload = ((fst ?P @ fst ?D @ fst (bootstrap env) @ fst (login_button env) @ fst (email_login env)
          @ fst (create_project env) @ fst (upload_step env ?fs) @ fst (timeline env st) @ fst (export_step env))
          @ [Call DownloadWait [], ConsoleWarn ''Export/download polling failed (timeout or selector mismatch).'',
             Call Close []], if returns env Close then Exit 0 else Throw)"
        using p d by (simp add: r s and_then_Next po)
      have "\<exists>pre. fst (run env payload) = pre @ [Call DownloadWait [],
                ConsoleWarn ''Export/download polling failed (timeout or selector mismatch).'', Call Close []]"
        by (subst e, subst fst_conv) (rule exI, rule refl)
      moreover have "returns env Close \<longrightarrow> snd (run env payload) = Exit 0"
        by (subst e) simp
      ultimately show ?thesis by (rule conjI)
    qed
    from a b show ?thesis by blast
  qed
  from po rest show ?thesis by blast
qed

theorem C8_witness:
  "\<not> returns env_export_timeout DownloadWait
   \<and> DownloadWait \<in> sites (run env_export_timeout three_assets)
   \<and> snd (run env_export_timeout three_assets) = Exit 0
   \<and> WriteExport \<notin> sites (run env_export_timeout three_assets)
   \<and> ConsoleWarn ''Export/download polling failed (timeout or selector mismatch).''
        \<in> set (fst (run env_export_timeout three_assets))"
proof -
  have h1: "\<not> returns env_export_timeout DownloadWait"
    and h2: "returns env_export_timeout Close"
    by (simp_all add: env_export_timeout_def env_ok_def)
  have r: "DownloadWait \<in> sites (run env_export_timeout three_assets)"
    by (simp add: eval env_export_timeout_def three_assets_def)
  note c = C8_completion_indicator_never_appears [OF h1, of JUndefined three_assets]
  from c r h2 have e: "snd (run env_export_timeout three_assets) = Exit 0" by blast
  from c have w: "WriteExport \<notin> sites (run env_export_timeout three_assets)" by blast
  from c r obtain pre where "fst (run env_export_timeout three_assets) = pre @ [Call DownloadWait [],
      ConsoleWarn ''Export/download polling failed (timeout or selector mismatch).'', Call Close []]"
    by blast
  then have "ConsoleWarn ''Export/download polling failed (timeout or selector mismatch).''
        \<in> set (fst (run env_export_timeout three_assets))" by simp
  with h1 r e w show ?thesis by blast
qed

section \<open>C9: sound effects and template\<close>

text \<open>
  C9. Two payloads whose fields agree except for \<^verbatim>\<open>sfx\<close> and \<^verbatim>\<open>template\<close> give the same run
  in the same world: the same trace and the same status. The script has no code for step 6
  and reads neither field.
\<close>

theorem C9_sfx_and_template_unused:
  assumes "\<forall>k. k \<noteq> ''sfx'' \<and> k \<noteq> ''template'' \<longrightarrow> map_of fs k = map_of gs k"
  shows "run env (JObj fs) = run env (JObj gs)"
proof -
  from assms have "map_of fs ''assetUrls'' = map_of gs ''assetUrls''"
    "map_of fs ''scriptText'' = map_of gs ''scriptText''"
    "map_of fs ''outputName'' = map_of gs ''outputName''" by simp_all
  then show ?thesis by (simp add: run_def)
qed

theorem C9_witness:
  "run env_ok with_sfx = run env_ok without_sfx \<and> with_sfx \<noteq> without_sfx
   \<and> snd (run env_ok with_sfx) = Exit 0"
proof -
  have "\<forall>k. k \<noteq> ''sfx'' \<and> k \<noteq> ''template'' \<longrightarrow>
      map_of [(''projectName'', JStr ''TV-20251021-001''), (''template'', JStr ''hybrid_action_meme_v2''),
     (''assetUrls'', JArr [JStr ''http://x/a.mp4'']), (''scriptText'', JArr [JObj [(''time'', JNum 0 0), (''text'', JStr ''Hook'')]]),
     (''sfx'', JArr [JStr ''boing.mp3'', JStr ''recordscratch.mp3'']), (''outputName'', JStr ''out.mp4'')] k
      = map_of [(''projectName'', JStr ''TV-20251021-001''),
     (''assetUrls'', JArr [JStr ''http://x/a.mp4'']), (''scriptText'', JArr [JObj [(''time'', JNum 0 0), (''text'', JStr ''Hook'')]]),
     (''sfx'', JNum 7 0), (''outputName'', JStr ''out.mp4'')] k"
    by simp
  from C9_sfx_and_template_unused [OF this, of env_ok]
  have e: "run env_ok with_sfx = run env_ok without_sfx" by (simp only: with_sfx_def without_sfx_def)
  have n: "with_sfx \<noteq> without_sfx" by (simp add: with_sfx_def without_sfx_def)
  have s: "snd (run env_ok with_sfx) = Exit 0" by (simp add: eval with_sfx_def)
  from e n s show ?thesis by blast
qed

section \<open>C10: the text of a caption\<close>

text \<open>
  C10. In the iteration for entry \<open>i\<close>, a call of \<^verbatim>\<open>page.keyboard.type\<close> is for that entry,
  and its argument is the entry's \<^verbatim>\<open>text\<close> when that is truthy and the entry itself
  otherwise. So a plain string is typed as it is, an entry with a truthy text gives that
  text, and an object whose text is missing or empty is passed whole to the call. The
  call is made whenever the \<^verbatim>\<open>Add text\<close> button and the text input are found, the click and
  the focus return, and the entry is neither \<^verbatim>\<open>null\<close> nor missing.
\<close>

theorem C10_caption_text:
  "(Call (KeyboardType j) args \<in> set (fst (add_caption env scriptObj i)) \<longrightarrow>
      j = i \<and> (\<exists>entry t. get_index scriptObj i = Some entry \<and> get_prop entry ''text'' = Some t
        \<and> args = [if truthy t then t else entry]))
   \<and> (i < length entries \<and> entries ! i = JStr s \<longrightarrow> caption_text (JArr entries) i = Some (JStr s))
   \<and> (i < length entries \<and> entries ! i = JObj fs
        \<and> (map_of fs ''text'' = None \<or> map_of fs ''text'' = Some (JStr []))
      \<longrightarrow> caption_text (JArr entries) i = Some (JObj fs))
   \<and> (i < length entries \<and> entries ! i = JObj fs \<and> map_of fs ''text'' = Some t \<and> truthy t
      \<longrightarrow> caption_text (JArr entries) i = Some t)
   \<and> (0 < matches env AddTextQuery \<and> returns env (AddTextClick i) \<and> returns env (ActiveInputQuery i)
        \<and> 0 < matches env (ActiveInputQuery i) \<and> returns env (Focus i) \<and> caption_text scriptObj i = Some v
      \<longrightarrow> Call (KeyboardType i) [v] \<in> set (fst (add_caption env scriptObj i)))"
proof (intro conjI impI)
  assume "Call (KeyboardType j) args \<in> set (fst (add_caption env scriptObj i))"
  then have "j = i \<and> (\<exists>v. caption_text scriptObj i = Some v \<and> args = [v])"
    by (auto simp: add_caption_def dest!: in_fst_try_catch in_fst_and_then split: if_splits option.splits)
  then show "j = i" and "\<exists>entry t. get_index scriptObj i = Some entry \<and> get_prop entry ''text'' = Some t
        \<and> args = [if truthy t then t else entry]"
    by (auto simp: caption_text_def js_or_def split: option.splits)
next
  assume "i < length entries \<and> entries ! i = JStr s"
  then show "caption_text (JArr entries) i = Some (JStr s)"
    by (simp add: caption_text_def js_or_def)
next
  assume "i < length entries \<and> entries ! i = JObj fs
        \<and> (map_of fs ''text'' = None \<or> map_of fs ''text'' = Some (JStr []))"
  then show "caption_text (JArr entries) i = Some (JObj fs)"
    by (auto simp: caption_text_def js_or_def)
next
  assume "i < length entries \<and> entries ! i = JObj fs \<and> map_of fs ''text'' = Some t \<and> truthy t"
  then show "caption_text (JArr entries) i = Some t"
    by (auto simp: caption_text_def js_or_def)
next
  assume "0 < matches env AddTextQuery \<and> returns env (AddTextClick i) \<and> returns env (ActiveInputQuery i)
        \<and> 0 < matches env (ActiveInputQuery i) \<and> returns env (Focus i) \<and> caption_text scriptObj i = Some v"
  then show "Call (KeyboardType i) [v] \<in> set (fst (add_caption env scriptObj i))"
    by (simp add: add_caption_def fst_try_catch fst_and_then snd_and_then)
qed

theorem C10_witness:
  "Call (KeyboardType 0) [JStr ''Hook''] \<in> set (fst (add_caption env_ok (JArr mixed_entries) 0))
   \<and> Call (KeyboardType 1) [JStr ''Punchline''] \<in> set (fst (add_caption env_ok (JArr mixed_entries) 1))
   \<and> Call (KeyboardType 2) [JObj [(''time'', JNum 3 0), (''text'', JStr [])]]
        \<in> set (fst (add_caption env_ok (JArr mixed_entries) 2))
   \<and> Call (KeyboardType 3) [JObj [(''time'', JNum 5 0)]] \<in> set (fst (add_caption env_ok (JArr mixed_entries) 3))"
proof -
  have w: "0 < matches env_ok AddTextQuery \<and> returns env_ok (AddTextClick i) \<and> returns env_ok (ActiveInputQuery i)
        \<and> 0 < matches env_ok (ActiveInputQuery i) \<and> returns env_ok (Focus i)" for i
    by (simp add: env_ok_def)
  note c = C10_caption_text [where env = env_ok and entries = mixed_entries and scriptObj = "JArr mixed_entries"]
  have t0: "caption_text (JArr mixed_entries) 0 = Some (JStr ''Hook'')"
    using c [of _ _ 0 "''Hook''"] by (simp add: mixed_entries_def)
  have t1: "caption_text (JArr mixed_entries) 1 = Some (JStr ''Punchline'')"
    using c [of _ _ 1 _ "[(''time'', JNum 0 0), (''text'', JStr ''Punchline'')]" "JStr ''Punchline''"]
    by (simp add: mixed_entries_def)
  have t2: "caption_text (JArr mixed_entries) 2 = Some (JObj [(''time'', JNum 3 0), (''text'', JStr [])])"
    using c [of _ _ 2 _ "[(''time'', JNum 3 0), (''text'', JStr [])]"] by (simp add: mixed_entries_def)
  have t3: "caption_text (JArr mixed_entries) 3 = Some (JObj [(''time'', JNum 5 0)])"
    using c [of _ _ 3 _ "[(''time'', JNum 5 0)]"] by (simp add: mixed_entries_def)
  from c [of _ _ 0 _ _ _ "JStr ''Hook''"] w [of 0] t0
  have k0: "Call (KeyboardType 0) [JStr ''Hook''] \<in> set (fst (add_caption env_ok (JArr mixed_entries) 0))"
    by blast
  from c [of _ _ 1 _ _ _ "JStr ''Punchline''"] w [of 1] t1
  have k1: "Call (KeyboardType 1) [JStr ''Punchline''] \<in> set (fst (add_caption env_ok (JArr mixed_entries) 1))"
    by blast
  from c [of _ _ 2 _ _ _ "JObj [(''time'', JNum 3 0), (''text'', JStr [])]"] w [of 2] t2
  have k2: "Call (KeyboardType 2) [JObj [(''time'', JNum 3 0), (''text'', JStr [])]]
        \<in> set (fst (add_caption env_ok (JArr mixed_entries) 2))"
    by blast
  from c [of _ _ 3 _ _ _ "JObj [(''time'', JNum 5 0)]"] w [of 3] t3
  have k3: "Call (KeyboardType 3) [JObj [(''time'', JNum 5 0)]] \<in> set (fst (add_caption env_ok (JArr mixed_entries) 3))"
    by blast
  from k0 k1 k2 k3 show ?thesis by blast
qed

end
